theory Spec2Isabelle
  imports Main "HOL-Library.Product_Lexorder"
begin

section \<open>Python values and exceptions\<close>

text \<open>
  The scoreboard is whatever \<^verbatim>\<open>r.json()\<close> returns, so the model keeps the JSON value
  as Python holds it: \<^verbatim>\<open>None\<close>, \<^verbatim>\<open>bool\<close>, \<^verbatim>\<open>int\<close>, \<^verbatim>\<open>str\<close>, \<^verbatim>\<open>list\<close> and \<^verbatim>\<open>dict\<close>
  (an association list, looked up by its first binding of a key). A \<^verbatim>\<open>str\<close> is the list of
  its UTF-8 bytes. JSON numbers with a fraction (Python \<^verbatim>\<open>float\<close>) are not modelled.
\<close>

datatype json =
    JNull
  | JBool bool
  | JInt int
  | JStr string
  | JArr "json list"
  | JObj "(string \<times> json) list"

text \<open>
  Every \<^verbatim>\<open>raise\<close> of the program and of the library calls it makes. All of these classes
  derive from \<^verbatim>\<open>Exception\<close>, which is what the handler of the poll loop catches.
  \<open>RequestException\<close> stands for the failures of \<^verbatim>\<open>requests\<close> that produce no response
  (connection error, timeout, invalid URL); \<open>HTTPError\<close> is raised by
  \<^verbatim>\<open>raise_for_status\<close> and carries the status code.
\<close>

datatype exn =
    NameError string
  | AttributeError
  | KeyError
  | TypeError
  | IndexError
  | StopIteration
  | ValueError
  | RequestException
  | HTTPError nat
  | JSONDecodeError

type_synonym 'a result = "exn + 'a"

definition rbind :: "'a result \<Rightarrow> ('a \<Rightarrow> 'b result) \<Rightarrow> 'b result" where
  "rbind r f = (case r of Inl e \<Rightarrow> Inl e | Inr x \<Rightarrow> f x)"

text \<open>Truth value of a Python object (\<^verbatim>\<open>not x\<close>, \<^verbatim>\<open>if x\<close>).\<close>

fun truthy :: "json \<Rightarrow> bool" where
  "truthy JNull = False"
| "truthy (JBool b) = b"
| "truthy (JInt i) = (i \<noteq> 0)"
| "truthy (JStr s) = (s \<noteq> [])"
| "truthy (JArr xs) = (xs \<noteq> [])"
| "truthy (JObj kvs) = (kvs \<noteq> [])"

text \<open>\<^verbatim>\<open>x.get(k, d)\<close>: only a dict has the method.\<close>

fun dict_get :: "json \<Rightarrow> string \<Rightarrow> json \<Rightarrow> json result" where
  "dict_get (JObj kvs) k d = Inr (case map_of kvs k of None \<Rightarrow> d | Some v \<Rightarrow> v)"
| "dict_get _ k d = Inl AttributeError"

text \<open>\<^verbatim>\<open>x["k"]\<close> with a string key: a missing key of a dict is a KeyError, a list or a
  string refuses the index, anything else is not subscriptable.\<close>

fun subscript_key :: "json \<Rightarrow> string \<Rightarrow> json result" where
  "subscript_key (JObj kvs) k = (case map_of kvs k of None \<Rightarrow> Inl KeyError | Some v \<Rightarrow> Inr v)"
| "subscript_key _ k = Inl TypeError"

definition is_continuation :: "char \<Rightarrow> bool" where
  "is_continuation c = (128 \<le> (of_char c :: nat) \<and> (of_char c :: nat) < 192)"

text \<open>The characters of a \<^verbatim>\<open>str\<close>: each lead byte with the continuation bytes after it.\<close>

function py_chars :: "string \<Rightarrow> string list" where
  "py_chars [] = []"
| "py_chars (c # cs) =
     (c # takeWhile is_continuation cs) # py_chars (dropWhile is_continuation cs)"
  by pat_completeness auto
termination
  by (relation "measure length") (auto simp: length_dropWhile_le less_Suc_eq_le)

text \<open>\<^verbatim>\<open>x[0]\<close>.\<close>

fun subscript_0 :: "json \<Rightarrow> json result" where
  "subscript_0 (JArr []) = Inl IndexError"
| "subscript_0 (JArr (x # xs)) = Inr x"
| "subscript_0 (JStr []) = Inl IndexError"
| "subscript_0 (JStr (c # cs)) = Inr (JStr (c # takeWhile is_continuation cs))"
| "subscript_0 (JObj kvs) = Inl KeyError"
| "subscript_0 _ = Inl TypeError"

text \<open>\<^verbatim>\<open>iter(x)\<close>, run to the end: the items of a list, the characters of a string, the keys
  of a dict; nothing else is iterable.\<close>

fun py_iter :: "json \<Rightarrow> json list result" where
  "py_iter (JArr xs) = Inr xs"
| "py_iter (JStr s) = Inr (map JStr (py_chars s))"
| "py_iter (JObj kvs) = Inr (map JStr (remdups (map fst kvs)))"
| "py_iter _ = Inl TypeError"

text \<open>
  The key under which a value sits in a \<^verbatim>\<open>set\<close>: lists and dicts are unhashable, and
  \<^verbatim>\<open>True\<close> and \<^verbatim>\<open>False\<close> are equal to (and hash as) \<^verbatim>\<open>1\<close> and \<^verbatim>\<open>0\<close>.
\<close>

fun hash_key :: "json \<Rightarrow> json result" where
  "hash_key (JArr xs) = Inl TypeError"
| "hash_key (JObj kvs) = Inl TypeError"
| "hash_key (JBool b) = Inr (JInt (if b then 1 else 0))"
| "hash_key v = Inr v"

fun digits_of :: "nat \<Rightarrow> string" where
  "digits_of n =
     (if n < 10 then [''0123456789'' ! n]
      else digits_of (n div 10) @ [''0123456789'' ! (n mod 10)])"

declare digits_of.simps [simp del]

definition str_int :: "int \<Rightarrow> string" where
  "str_int i = (if i < 0 then ''-'' @ digits_of (nat (- i)) else digits_of (nat i))"

text \<open>
  \<^verbatim>\<open>str(x)\<close>, as an f-string field formats it. The text of a list or a dict is the
  interpreter's \<^verbatim>\<open>repr\<close>, taken as the parameter \<open>repr\<close>.
\<close>

fun py_str :: "(json \<Rightarrow> string) \<Rightarrow> json \<Rightarrow> string" where
  "py_str repr JNull = ''None''"
| "py_str repr (JBool b) = (if b then ''True'' else ''False'')"
| "py_str repr (JInt i) = str_int i"
| "py_str repr (JStr s) = s"
| "py_str repr v = repr v"

definition startswith :: "string \<Rightarrow> string \<Rightarrow> bool" where
  "startswith s p = (take (length p) s = p)"

section \<open>The game state classifier\<close>

text \<open>
  \<^verbatim>\<open>get_home_away\<close>: \<^verbatim>\<open>next(t for t in competitors if t["homeAway"] == side)\<close> inspects
  the competitors in order and stops at the first match; an item it has to inspect that
  cannot be subscripted raises, and running out of items raises StopIteration.
\<close>

fun next_side :: "string \<Rightarrow> json list \<Rightarrow> json result" where
  "next_side side [] = Inl StopIteration"
| "next_side side (t # ts) =
     (case subscript_key t ''homeAway'' of
        Inl e \<Rightarrow> Inl e
      | Inr v \<Rightarrow> if v = JStr side then Inr t else next_side side ts)"

definition get_home_away :: "json \<Rightarrow> (json \<times> json) result" where
  "get_home_away event =
     rbind (subscript_key event ''competitions'') (\<lambda>comps.
     rbind (subscript_0 comps) (\<lambda>comp.
     rbind (subscript_key comp ''competitors'') (\<lambda>competitors.
     rbind (py_iter competitors) (\<lambda>ts.
     rbind (next_side ''home'' ts) (\<lambda>home.
     rbind (next_side ''away'' ts) (\<lambda>away.
     Inr (away, home)))))))"

text \<open>
  Instants and durations are whole microseconds, as \<^verbatim>\<open>datetime\<close> and \<^verbatim>\<open>timedelta\<close> hold
  them. \<^verbatim>\<open>delta.total_seconds()\<close> divides the microseconds by 10^6 into a float, the double
  nearest to the quotient (ties to the even significand), and \<^verbatim>\<open>int\<close> drops its fraction,
  towards zero. The double is kept as an integer significand of 53 bits and a power of two.
\<close>

text \<open>\<^verbatim>\<open>n.bit_length()\<close>.\<close>

function bit_length :: "int \<Rightarrow> nat" where
  "bit_length n = (if n \<le> 0 then 0 else Suc (bit_length (n div 2)))"
  by pat_completeness auto
termination
  by (relation "measure nat") auto

declare bit_length.simps [simp del]

text \<open>The integer nearest to \<open>n / d\<close>, a tie going to the even one.\<close>

definition round_half_even :: "int \<Rightarrow> int \<Rightarrow> int" where
  "round_half_even n d =
     (let q = n div d; r = n mod d
      in if 2 * r < d then q
         else if d < 2 * r then q + 1
         else if even q then q else q + 1)"

text \<open>
  \<^verbatim>\<open>int(n / d)\<close> for \<open>0 \<le> n\<close> and \<open>0 < d\<close>: with \<open>2^e \<le> n / d < 2^(e + 1)\<close> the float is the
  multiple of \<open>2^(e - 52)\<close> nearest to \<open>n / d\<close>. (No quotient of microseconds by 10^6 leaves
  the range of normal doubles.)
\<close>

definition int_true_divide :: "int \<Rightarrow> int \<Rightarrow> int" where
  "int_true_divide n d =
     (if n = 0 then 0
      else if d \<le> n then
        (let e = bit_length (n div d) - 1
         in if e \<le> 52 then round_half_even (n * 2 ^ (52 - e)) d div 2 ^ (52 - e)
            else round_half_even n (d * 2 ^ (e - 52)) * 2 ^ (e - 52))
      else
        (let k = bit_length ((d - 1) div n)
         in round_half_even (n * 2 ^ (52 + k)) d div 2 ^ (52 + k)))"

definition total_seconds_int :: "int \<Rightarrow> int" where
  "total_seconds_int delta =
     (if 0 \<le> delta then int_true_divide delta 1000000
      else - int_true_divide (- delta) 1000000)"

text \<open>\<^verbatim>\<open>format_time_until\<close>, with the value of \<^verbatim>\<open>datetime.now()\<close> as the argument \<open>now\<close>.\<close>

definition format_time_until :: "int \<Rightarrow> int \<Rightarrow> string" where
  "format_time_until now start_local =
     (let delta = start_local - now;
          seconds = total_seconds_int delta
      in if seconds \<le> 0 then ''started''
         else
           let minutes = (seconds + 59) div 60;
               hours = minutes div 60;
               mins = minutes mod 60
           in if hours = 0 then ''in '' @ str_int mins @ ''m''
              else if mins = 0 then ''in '' @ str_int hours @ ''h''
              else ''in '' @ str_int hours @ ''h '' @ str_int mins @ ''m'')"

text \<open>\<^verbatim>\<open>is_halftime\<close>: \<^verbatim>\<open>==\<close> against a string literal holds for that string only.\<close>

definition is_halftime :: "json \<Rightarrow> bool result" where
  "is_halftime event =
     rbind (subscript_key event ''status'') (\<lambda>status.
     rbind (subscript_key status ''type'') (\<lambda>st.
     rbind (dict_get st ''name'' JNull) (\<lambda>name.
       if name = JStr ''STATUS_HALFTIME'' then Inr True
       else rbind (dict_get st ''detail'' JNull) (\<lambda>detail.
         Inr (detail = JStr ''Halftime'')))))"

definition en_dash :: string where
  "en_dash = [CHR 0xE2, CHR 0x80, CHR 0x93]"

definition format_live_line :: "(json \<Rightarrow> string) \<Rightarrow> json \<Rightarrow> string result" where
  "format_live_line repr event =
     rbind (get_home_away event) (\<lambda>(away, home).
     rbind (subscript_key event ''status'') (\<lambda>status_obj.
     rbind (subscript_key status_obj ''type'') (\<lambda>st.
     rbind (dict_get st ''detail'' (JStr ''Unknown'')) (\<lambda>status.
     rbind (dict_get away ''score'' (JStr ''0'')) (\<lambda>away_score.
     rbind (dict_get home ''score'' (JStr ''0'')) (\<lambda>home_score.
     rbind (subscript_key away ''team'') (\<lambda>away_team.
     rbind (subscript_key away_team ''displayName'') (\<lambda>away_name.
     rbind (subscript_key home ''team'') (\<lambda>home_team.
     rbind (subscript_key home_team ''displayName'') (\<lambda>home_name.
     Inr (py_str repr away_name @ '' '' @ py_str repr away_score @ '' '' @ en_dash @ '' ''
          @ py_str repr home_name @ '' '' @ py_str repr home_score
          @ '' ('' @ py_str repr status @ '')'')))))))))))"

section \<open>The world outside the process\<close>

text \<open>
  What the network and the clock answer is not decided by the program: it is the record
  \<open>env\<close>, indexed by the number of interactions made so far (the field \<open>clock\<close> of the
  state), so that every read of the date and every request may get a different answer.
  Library functions whose code is not in the repository are fields too:
  \<open>fromisoformat_local\<close> is \<^verbatim>\<open>datetime.fromisoformat(iso).astimezone()\<close> as an instant (it
  raises on a malformed text), \<open>strftime_start\<close> is \<^verbatim>\<open>strftime("%-I:%M %p")\<close> in the host's
  time zone, \<open>repr_of\<close> is \<^verbatim>\<open>repr\<close> on lists and dicts.
\<close>

datatype http_outcome = NoResponse | Response nat

datatype get_outcome = GetNoResponse | GetResponse nat "json option"

record env =
  today_at :: "nat \<Rightarrow> nat"
  now_at :: "nat \<Rightarrow> int"
  now_yyyymmdd_at :: "nat \<Rightarrow> string"
  post_at :: "nat \<Rightarrow> http_outcome"
  get_at :: "nat \<Rightarrow> get_outcome"
  fromisoformat_local :: "string \<Rightarrow> int result"
  strftime_start :: "int \<Rightarrow> string"
  repr_of :: "json \<Rightarrow> string"

text \<open>
  The module's global names that its functions read and that the module may or may not
  bind: \<open>None\<close> is an unbound name, whose use raises NameError. \<open>WEBHOOK\<close> is bound by
  line 8 to the value of \<^verbatim>\<open>os.getenv("DISCORD_WEBHOOK")\<close>.
\<close>

record globals =
  WEBHOOK :: json
  DISCORD_WEBHOOK :: "json option"
  PING_USER_ID :: "json option"

text \<open>
  The namespace the file itself builds when it is run as a script: line 8 binds \<open>WEBHOOK\<close>,
  the assignment of \<open>PING_USER_ID\<close> on line 14 is commented out, and nothing binds
  \<open>DISCORD_WEBHOOK\<close>. The argument is the environment variable, \<open>None\<close> when it is not set.
\<close>

definition script_globals :: "string option \<Rightarrow> globals" where
  "script_globals v =
     \<lparr> WEBHOOK = (case v of None \<Rightarrow> JNull | Some u \<Rightarrow> JStr u),
       DISCORD_WEBHOOK = None,
       PING_USER_ID = None \<rparr>"

text \<open>
  Everything the process does to the outside is appended to \<open>trace\<close>. A POST carries the
  call site that issued it (for a halftime alert, with the game's key in the alerted set);
  the label is bookkeeping and decides nothing.
\<close>

datatype label = StartupMsg | DayResetMsg | ScheduleMsg | HalftimeMsg json

datatype io =
    Post label string string http_outcome
  | Get string get_outcome
  | Print exn
  | Sleep nat

record state =
  alerted_games :: "json set"
  last_day :: nat
  posted_schedule_for_day :: bool
  clock :: nat
  trace :: "io list"

type_synonym 'a prog = "state \<Rightarrow> 'a result \<times> state"

definition sbind :: "'a prog \<Rightarrow> ('a \<Rightarrow> 'b prog) \<Rightarrow> 'b prog" where
  "sbind m f s = (case m s of (Inl e, s') \<Rightarrow> (Inl e, s') | (Inr x, s') \<Rightarrow> f x s')"

definition lift :: "'a result \<Rightarrow> 'a prog" where
  "lift r s = (r, s)"

definition ESPN_URL :: string where
  "ESPN_URL = ''https://site.api.espn.com/apis/site/v2/sports/basketball/nba/scoreboard''"

definition POLL_SECONDS :: nat where
  "POLL_SECONDS = 60"

text \<open>\<^verbatim>\<open>Response.raise_for_status\<close> of \<^verbatim>\<open>requests\<close>: it raises for the status codes from
  400 to 599 and for no other.\<close>

definition raise_for_status :: "nat \<Rightarrow> unit result" where
  "raise_for_status code = (if 400 \<le> code \<and> code < 600 then Inl (HTTPError code) else Inr ())"

text \<open>
  \<^verbatim>\<open>send_discord\<close>. The name \<^verbatim>\<open>DISCORD_WEBHOOK\<close> is looked up first; \<^verbatim>\<open>requests.post\<close>
  refuses a URL that is not a string before sending anything.
\<close>

definition send_discord :: "globals \<Rightarrow> env \<Rightarrow> label \<Rightarrow> string \<Rightarrow> unit prog" where
  "send_discord g w lab msg s =
     (case DISCORD_WEBHOOK g of
        None \<Rightarrow> (Inl (NameError ''DISCORD_WEBHOOK''), s)
      | Some (JStr url) \<Rightarrow>
          (let out = post_at w (clock s);
               s' = s\<lparr>clock := clock s + 1, trace := trace s @ [Post lab url msg out]\<rparr>
           in case out of
                NoResponse \<Rightarrow> (Inl RequestException, s')
              | Response code \<Rightarrow> (raise_for_status code, s'))
      | Some _ \<Rightarrow> (Inl RequestException, s))"

definition fetch_scoreboard :: "env \<Rightarrow> json prog" where
  "fetch_scoreboard w s =
     (let today = now_yyyymmdd_at w (clock s);
          s1 = s\<lparr>clock := clock s + 1\<rparr>;
          url = ESPN_URL @ ''?dates='' @ today;
          out = get_at w (clock s1);
          s2 = s1\<lparr>clock := clock s1 + 1, trace := trace s1 @ [Get url out]\<rparr>
      in case out of
           GetNoResponse \<Rightarrow> (Inl RequestException, s2)
         | GetResponse code body \<Rightarrow>
             (case raise_for_status code of
                Inl e \<Rightarrow> (Inl e, s2)
              | Inr _ \<Rightarrow>
                  (case body of None \<Rightarrow> (Inl JSONDecodeError, s2) | Some data \<Rightarrow> (Inr data, s2))))"

definition replace_Z :: "string \<Rightarrow> string" where
  "replace_Z txt = concat (map (\<lambda>c. if c = CHR ''Z'' then ''+00:00'' else [c]) txt)"

text \<open>\<^verbatim>\<open>parse_event_datetime_local\<close>: \<open>None\<close> when the event has no (or a falsy) date.\<close>

definition parse_event_datetime_local :: "env \<Rightarrow> json \<Rightarrow> int option result" where
  "parse_event_datetime_local w event =
     rbind (dict_get event ''date'' JNull) (\<lambda>txt.
       if \<not> truthy txt then Inr None
       else case txt of
              JStr t \<Rightarrow> rbind (fromisoformat_local w (replace_Z t)) (\<lambda>dt. Inr (Some dt))
            | _ \<Rightarrow> Inl AttributeError)"

text \<open>
  The key of \<^verbatim>\<open>sorted\<close> in \<^verbatim>\<open>post_schedule_once\<close>: the instant, or infinity for an undated
  event, here a pair whose first component puts the undated events last.
\<close>

definition sort_key_of :: "env \<Rightarrow> json \<Rightarrow> (bool \<times> int) result" where
  "sort_key_of w e =
     rbind (parse_event_datetime_local w e) (\<lambda>dt.
       Inr (case dt of Some t \<Rightarrow> (False, t) | None \<Rightarrow> (True, 0)))"

fun sort_keys :: "env \<Rightarrow> json list \<Rightarrow> (bool \<times> int) list result" where
  "sort_keys w [] = Inr []"
| "sort_keys w (e # es) =
     rbind (sort_key_of w e) (\<lambda>k. rbind (sort_keys w es) (\<lambda>ks. Inr (k # ks)))"

definition em_dash :: string where
  "em_dash = [CHR 0xE2, CHR 0x80, CHR 0x94]"

definition team_name :: "(json \<Rightarrow> string) \<Rightarrow> json \<Rightarrow> string result" where
  "team_name repr t =
     rbind (subscript_key t ''team'') (\<lambda>team.
     rbind (subscript_key team ''displayName'') (\<lambda>n. Inr (py_str repr n)))"

text \<open>The body of the loop over the sorted events, one schedule line each.\<close>

definition schedule_line :: "env \<Rightarrow> json \<Rightarrow> string prog" where
  "schedule_line w e =
     sbind (lift (parse_event_datetime_local w e)) (\<lambda>start_local.
     sbind (lift (get_home_away e)) (\<lambda>(away, home).
       case start_local of
         Some t \<Rightarrow>
           (\<lambda>s. let t_str = strftime_start w t;
                    until = format_time_until (now_at w (clock s)) t
                in sbind (lift (team_name (repr_of w) away)) (\<lambda>an.
                   sbind (lift (team_name (repr_of w) home)) (\<lambda>hn.
                   lift (Inr (t_str @ '' ('' @ until @ '') '' @ em_dash @ '' '' @ an @ '' @ '' @ hn))))
                   (s\<lparr>clock := clock s + 1\<rparr>))
       | None \<Rightarrow>
           sbind (lift (team_name (repr_of w) away)) (\<lambda>an.
           sbind (lift (team_name (repr_of w) home)) (\<lambda>hn.
           lift (Inr (''TBD '' @ em_dash @ '' '' @ an @ '' @ '' @ hn))))))"

fun schedule_lines :: "env \<Rightarrow> json list \<Rightarrow> string list prog" where
  "schedule_lines w [] s = (Inr [], s)"
| "schedule_lines w (e # es) s =
     sbind (schedule_line w e) (\<lambda>l.
     sbind (schedule_lines w es) (\<lambda>ls. lift (Inr (l # ls)))) s"

fun join_lines :: "string list \<Rightarrow> string" where
  "join_lines [] = []"
| "join_lines [l] = l"
| "join_lines (l # ls) = l @ ''\<newline>'' @ join_lines ls"

definition schedule_header :: string where
  "schedule_header =
     [CHR 0xF0, CHR 0x9F, CHR 0x97, CHR 0x93, CHR 0xEF, CHR 0xB8, CHR 0x8F]
     @ '' **Today's NBA schedule**\<newline>''"

definition mark_posted :: "unit prog" where
  "mark_posted s = (Inr (), s\<lparr>posted_schedule_for_day := True\<rparr>)"

definition post_schedule_once :: "globals \<Rightarrow> env \<Rightarrow> json \<Rightarrow> unit prog" where
  "post_schedule_once g w events s =
     (if posted_schedule_for_day s then (Inr (), s)
      else if \<not> truthy events then
        sbind (send_discord g w ScheduleMsg (schedule_header @ ''No NBA games found for today.''))
          (\<lambda>_. mark_posted) s
      else
        sbind (lift (py_iter events)) (\<lambda>es.
        sbind (lift (sort_keys w es)) (\<lambda>ks.
        sbind (schedule_lines w (map snd (sort_key fst (zip ks es)))) (\<lambda>lines.
        sbind (send_discord g w ScheduleMsg (schedule_header @ join_lines lines))
          (\<lambda>_. mark_posted)))) s)"

definition basketball :: string where
  "basketball = [CHR 0xF0, CHR 0x9F, CHR 0x8F, CHR 0x80]"

definition halftime_text :: "string \<Rightarrow> string \<Rightarrow> string" where
  "halftime_text ping line =
     ''<@'' @ ping @ ''>\<newline>'' @ basketball @ '' **HALFTIME**\<newline>'' @ line"

definition mark_alerted :: "json \<Rightarrow> unit prog" where
  "mark_alerted k s = (Inr (), s\<lparr>alerted_games := insert k (alerted_games s)\<rparr>)"

text \<open>
  The body of the loop over the events in \<^verbatim>\<open>check_games\<close>. In the f-string the name
  \<^verbatim>\<open>PING_USER_ID\<close> is evaluated before \<^verbatim>\<open>format_live_line(event)\<close>, and both before the call.
\<close>

definition halftime_alert :: "globals \<Rightarrow> env \<Rightarrow> json \<Rightarrow> unit prog" where
  "halftime_alert g w event s =
     (case dict_get event ''id'' JNull of
        Inl e \<Rightarrow> (Inl e, s)
      | Inr game_id \<Rightarrow>
          if \<not> truthy game_id then (Inr (), s)
          else
            (case is_halftime event of
               Inl e \<Rightarrow> (Inl e, s)
             | Inr False \<Rightarrow> (Inr (), s)
             | Inr True \<Rightarrow>
                 (case hash_key game_id of
                    Inl e \<Rightarrow> (Inl e, s)
                  | Inr k \<Rightarrow>
                      if k \<in> alerted_games s then (Inr (), s)
                      else
                        (case PING_USER_ID g of
                           None \<Rightarrow> (Inl (NameError ''PING_USER_ID''), s)
                         | Some p \<Rightarrow>
                             (case format_live_line (repr_of w) event of
                                Inl e \<Rightarrow> (Inl e, s)
                              | Inr line \<Rightarrow>
                                  sbind (send_discord g w (HalftimeMsg k)
                                           (halftime_text (py_str (repr_of w) p) line))
                                    (\<lambda>_. mark_alerted k) s)))))"

fun halftime_alerts :: "globals \<Rightarrow> env \<Rightarrow> json list \<Rightarrow> unit prog" where
  "halftime_alerts g w [] s = (Inr (), s)"
| "halftime_alerts g w (event # events) s =
     sbind (halftime_alert g w event) (\<lambda>_. halftime_alerts g w events) s"

definition check_games :: "globals \<Rightarrow> env \<Rightarrow> unit prog" where
  "check_games g w =
     sbind (fetch_scoreboard w) (\<lambda>data.
     sbind (lift (dict_get data ''events'' (JArr []))) (\<lambda>events.
     sbind (post_schedule_once g w events) (\<lambda>_.
     sbind (lift (py_iter events)) (\<lambda>es.
     halftime_alerts g w es))))"

section \<open>The poll loop\<close>

definition webhook_prefix :: string where
  "webhook_prefix = ''https://discord.com/api/webhooks/''"

definition startup_text :: "string \<Rightarrow> string" where
  "startup_text ping =
     [CHR 0xE2, CHR 0x9C, CHR 0x85] @ '' Halftime bot started. <@'' @ ping @ ''>''"

definition day_reset_text :: string where
  "day_reset_text =
     [CHR 0xF0, CHR 0x9F, CHR 0x94, CHR 0x84] @ '' New day '' @ em_dash @ '' reset alerted games.''"

text \<open>\<^verbatim>\<open>main\<close> up to the \<^verbatim>\<open>while\<close>: the check of the webhook, the announcement and the
  first check cycle. Nothing here is inside a \<^verbatim>\<open>try\<close>.\<close>

definition startup :: "globals \<Rightarrow> env \<Rightarrow> unit prog" where
  "startup g w s =
     (case DISCORD_WEBHOOK g of
        None \<Rightarrow> (Inl (NameError ''DISCORD_WEBHOOK''), s)
      | Some (JStr url) \<Rightarrow>
          if \<not> startswith url webhook_prefix then (Inl ValueError, s)
          else
            (case PING_USER_ID g of
               None \<Rightarrow> (Inl (NameError ''PING_USER_ID''), s)
             | Some p \<Rightarrow>
                 sbind (send_discord g w StartupMsg (startup_text (py_str (repr_of w) p)))
                   (\<lambda>_. check_games g w) s)
      | Some _ \<Rightarrow> (Inl AttributeError, s))"

text \<open>The suite of the \<^verbatim>\<open>try\<close> in the loop. \<^verbatim>\<open>date.today()\<close> is read once for the
  comparison and once more for the assignment.\<close>

definition loop_body :: "globals \<Rightarrow> env \<Rightarrow> unit prog" where
  "loop_body g w s =
     (let today = today_at w (clock s);
          s1 = s\<lparr>clock := clock s + 1\<rparr>
      in if today \<noteq> last_day s1 then
           (let s2 = s1\<lparr>alerted_games := {}\<rparr>;
                s3 = s2\<lparr>last_day := today_at w (clock s2), clock := clock s2 + 1\<rparr>;
                s4 = s3\<lparr>posted_schedule_for_day := False\<rparr>
            in sbind (send_discord g w DayResetMsg day_reset_text) (\<lambda>_.
               sbind (check_games g w) (\<lambda>_. check_games g w)) s4)
         else check_games g w s1)"

text \<open>One pass of the \<^verbatim>\<open>while\<close>: the \<^verbatim>\<open>try\<close>, its handler (which prints the exception and
  goes on), and the sleep.\<close>

definition loop_iteration :: "globals \<Rightarrow> env \<Rightarrow> state \<Rightarrow> state" where
  "loop_iteration g w s =
     (let s' = (case loop_body g w s of
                  (Inl e, s1) \<Rightarrow> s1\<lparr>trace := trace s1 @ [Print e]\<rparr>
                | (Inr _, s1) \<Rightarrow> s1)
      in s'\<lparr>trace := trace s' @ [Sleep POLL_SECONDS]\<rparr>)"

text \<open>The \<^verbatim>\<open>while True\<close> never ends; \<open>poll_loop n\<close> is its first \<open>n\<close> passes.\<close>

fun poll_loop :: "nat \<Rightarrow> globals \<Rightarrow> env \<Rightarrow> state \<Rightarrow> state" where
  "poll_loop 0 g w s = s"
| "poll_loop (Suc n) g w s = poll_loop n g w (loop_iteration g w s)"

text \<open>
  \<^verbatim>\<open>main\<close>, observed after \<open>n\<close> passes of the loop: \<open>Some e\<close> when the process has ended with
  the uncaught exception \<open>e\<close>, \<open>None\<close> when it is still running.
\<close>

definition main :: "nat \<Rightarrow> globals \<Rightarrow> env \<Rightarrow> state \<Rightarrow> exn option \<times> state" where
  "main n g w s =
     (case startup g w s of
        (Inl e, s') \<Rightarrow> (Some e, s')
      | (Inr _, s') \<Rightarrow> (None, poll_loop n g w s'))"

text \<open>The module-level state when \<^verbatim>\<open>main\<close> is called: lines 18 to 20, with \<^verbatim>\<open>date.today()\<close>
  read at import.\<close>

definition initial_state :: "env \<Rightarrow> state" where
  "initial_state w =
     \<lparr> alerted_games = {}, last_day = today_at w 0, posted_schedule_for_day = False,
       clock = 1, trace = [] \<rparr>"

section \<open>Observing a run\<close>

text \<open>A POST counts as a notification sent when \<^verbatim>\<open>send_discord\<close> returned from it, that
  is when there was a response and \<^verbatim>\<open>raise_for_status\<close> did not raise.\<close>

fun accepted :: "http_outcome \<Rightarrow> bool" where
  "accepted NoResponse = False"
| "accepted (Response code) = (\<not> (400 \<le> code \<and> code < 600))"

fun sent_as :: "label \<Rightarrow> io \<Rightarrow> bool" where
  "sent_as l (Post l' url msg out) = (l' = l \<and> accepted out)"
| "sent_as l _ = False"

definition sent_count :: "label \<Rightarrow> state \<Rightarrow> nat" where
  "sent_count l s = length (filter (sent_as l) (trace s))"

fun is_sleep :: "io \<Rightarrow> bool" where
  "is_sleep (Sleep n) = True"
| "is_sleep _ = False"

definition sleep_count :: "state \<Rightarrow> nat" where
  "sleep_count s = length (filter is_sleep (trace s))"

text \<open>
  \<open>accounted n s s'\<close>: from \<open>s\<close> to \<open>s'\<close> the trace has only grown, by \<open>n\<close> sleeps; the day
  is the same; and every change of the alerted set and of the schedule flag is matched by
  one accepted POST of that kind, nothing being taken back.
\<close>

definition accounted :: "nat \<Rightarrow> state \<Rightarrow> state \<Rightarrow> bool" where
  "accounted n s s' \<longleftrightarrow>
     (\<exists>ev. trace s' = trace s @ ev) \<and>
     sleep_count s' = sleep_count s + n \<and>
     last_day s' = last_day s \<and>
     alerted_games s \<subseteq> alerted_games s' \<and>
     (posted_schedule_for_day s \<longrightarrow> posted_schedule_for_day s') \<and>
     (\<forall>k. sent_count (HalftimeMsg k) s' + (if k \<in> alerted_games s then 1 else 0)
          = sent_count (HalftimeMsg k) s + (if k \<in> alerted_games s' then 1 else 0)) \<and>
     sent_count ScheduleMsg s' + (if posted_schedule_for_day s then 1 else 0)
       = sent_count ScheduleMsg s + (if posted_schedule_for_day s' then 1 else 0)"

text \<open>A step that touches neither the tracker nor the count of any notification.\<close>

definition quiet :: "state \<Rightarrow> state \<Rightarrow> bool" where
  "quiet s s' \<longleftrightarrow>
     (\<exists>ev. trace s' = trace s @ ev) \<and>
     sleep_count s' = sleep_count s \<and>
     last_day s' = last_day s \<and>
     alerted_games s' = alerted_games s \<and>
     posted_schedule_for_day s' = posted_schedule_for_day s \<and>
     (\<forall>l. sent_count l s' = sent_count l s)"

text \<open>The tracker after lines 163 to 165 of a tick that finds a new day: the set is
  empty, the day is the one read by the second \<^verbatim>\<open>date.today()\<close>, the flag is false.\<close>

definition reset_state :: "env \<Rightarrow> state \<Rightarrow> state" where
  "reset_state w s =
     s\<lparr>alerted_games := {}, last_day := today_at w (clock s + 1),
       clock := clock s + 2, posted_schedule_for_day := False\<rparr>"

text \<open>
  The spec's \<open>timeUntilStart\<close> for a known start instant, in the spec's words: "started"
  when the start is at or before now, otherwise the whole minutes remaining, rounded up
  to the next minute boundary, as hours and minutes.
\<close>

definition timeUntilStart_spec :: "int \<Rightarrow> int \<Rightarrow> string" where
  "timeUntilStart_spec now start =
     (if start \<le> now then ''started''
      else
        let minutes = - ((- (start - now)) div 60000000);
            hours = minutes div 60;
            mins = minutes mod 60
        in if hours = 0 then ''in '' @ str_int mins @ ''m''
           else if mins = 0 then ''in '' @ str_int hours @ ''h''
           else ''in '' @ str_int hours @ ''h '' @ str_int mins @ ''m'')"

subsection \<open>Concrete runs\<close>

definition team :: "string \<Rightarrow> string \<Rightarrow> string \<Rightarrow> json" where
  "team side name score =
     JObj [(''homeAway'', JStr side),
           (''team'', JObj [(''displayName'', JStr name)]),
           (''score'', JStr score)]"

definition game_401 :: json where
  "game_401 =
     JObj [(''id'', JStr ''401''),
           (''date'', JStr ''2026-01-01T00:30Z''),
           (''competitions'',
              JArr [JObj [(''competitors'',
                 JArr [team ''home'' ''Celtics'' ''55'', team ''away'' ''Knicks'' ''51''])]]),
           (''status'',
              JObj [(''type'',
                 JObj [(''name'', JStr ''STATUS_HALFTIME''), (''detail'', JStr ''Halftime'')])])]"

definition scoreboard :: "json list \<Rightarrow> get_outcome" where
  "scoreboard events = GetResponse 200 (Some (JObj [(''events'', JArr events)]))"

definition world :: "(nat \<Rightarrow> nat) \<Rightarrow> (nat \<Rightarrow> http_outcome) \<Rightarrow> (nat \<Rightarrow> get_outcome) \<Rightarrow> env" where
  "world days posts gets =
     \<lparr> today_at = days,
       now_at = (\<lambda>n. 0),
       now_yyyymmdd_at = (\<lambda>n. ''20260101''),
       post_at = posts,
       get_at = gets,
       fromisoformat_local = (\<lambda>t. Inr 1800000000),
       strftime_start = (\<lambda>t. ''7:30 PM''),
       repr_of = (\<lambda>v. ''?'') \<rparr>"

definition bound_globals :: globals where
  "bound_globals =
     \<lparr> WEBHOOK = JStr ''https://discord.com/api/webhooks/1/t'',
       DISCORD_WEBHOOK = Some (JStr ''https://discord.com/api/webhooks/1/t''),
       PING_USER_ID = Some (JStr ''428747562686611457'') \<rparr>"

definition state0 :: "nat \<Rightarrow> state" where
  "state0 d =
     \<lparr> alerted_games = {}, last_day = d, posted_schedule_for_day = False,
       clock = 1, trace = [] \<rparr>"

text \<open>The texts and the outcomes of the POSTs of a trace, in order.\<close>

fun texts_of :: "label \<Rightarrow> io list \<Rightarrow> string list" where
  "texts_of l [] = []"
| "texts_of l (Post l' url msg out # tr) = (if l' = l then msg # texts_of l tr else texts_of l tr)"
| "texts_of l (x # tr) = texts_of l tr"

fun outcomes_of :: "io list \<Rightarrow> (label \<times> http_outcome) list" where
  "outcomes_of [] = []"
| "outcomes_of (Post l url msg out # tr) = (l, out) # outcomes_of tr"
| "outcomes_of (x # tr) = outcomes_of tr"

definition steady_world :: env where
  "steady_world = world (\<lambda>n. 5) (\<lambda>n. Response 204) (\<lambda>n. scoreboard [game_401])"

definition alerted_state :: state where
  "alerted_state =
     \<lparr> alerted_games = {JStr ''401''}, last_day = 5, posted_schedule_for_day = True,
       clock = 1, trace = [] \<rparr>"

definition failing_posts_world :: env where
  "failing_posts_world = world (\<lambda>n. 6) (\<lambda>n. NoResponse) (\<lambda>n. scoreboard [game_401])"

definition next_day_world :: env where
  "next_day_world = world (\<lambda>n. 6) (\<lambda>n. Response 204) (\<lambda>n. scoreboard [game_401])"

definition not_modified_world :: env where
  "not_modified_world = world (\<lambda>n. 5) (\<lambda>n. Response 304) (\<lambda>n. scoreboard [game_401])"

definition offline_world :: env where
  "offline_world = world (\<lambda>n. 5) (\<lambda>n. Response 204) (\<lambda>n. GetNoResponse)"

text \<open>
  The message texts as the spec gives them: the startup announcement, and the halftime
  alert for a given live line.
\<close>

definition startup_text_spec :: string where
  "startup_text_spec = [CHR 0xE2, CHR 0x9C, CHR 0x85] @ '' Halftime bot started.''"

definition halftime_text_spec :: "string \<Rightarrow> string" where
  "halftime_text_spec line = basketball @ '' **HALFTIME**\<newline>'' @ line"

section \<open>Accounting for every notification\<close>

lemma sbind_cases:
  "sbind m f s = (r, s') \<Longrightarrow>
     (\<exists>e. m s = (Inl e, s') \<and> r = Inl e) \<or> (\<exists>x s1. m s = (Inr x, s1) \<and> f x s1 = (r, s'))"
  by (auto simp: sbind_def split: prod.splits sum.splits)

lemma sbind_rel:
  assumes run: "sbind m f s = (r, s')"
    and first: "\<And>r1 s1. m s = (r1, s1) \<Longrightarrow> R s s1"
    and rest: "\<And>x s1. m s = (Inr x, s1) \<Longrightarrow> f x s1 = (r, s') \<Longrightarrow> R s1 s'"
    and trans: "\<And>a b c. R a b \<Longrightarrow> R b c \<Longrightarrow> R a c"
  shows "R s s'"
  using sbind_cases [OF run] first rest trans by blast

lemma lift_same: "lift r s = (r', s') \<Longrightarrow> s' = s"
  by (simp add: lift_def)

lemma quiet_refl: "quiet s s"
  by (simp add: quiet_def)

lemma quiet_trans: "quiet a b \<Longrightarrow> quiet b c \<Longrightarrow> quiet a c"
  by (auto simp: quiet_def)

lemma accounted_refl: "accounted 0 s s"
  by (simp add: accounted_def)

lemma accounted_add:
  assumes ab: "accounted m a b" and bc: "accounted n b c"
  shows "accounted (m + n) a c"
proof -
  have h: "sent_count (HalftimeMsg k) c + (if k \<in> alerted_games a then 1 else 0)
          = sent_count (HalftimeMsg k) a + (if k \<in> alerted_games c then 1 else 0)" for k
  proof -
    have 1: "sent_count (HalftimeMsg k) b + (if k \<in> alerted_games a then 1 else 0)
          = sent_count (HalftimeMsg k) a + (if k \<in> alerted_games b then 1 else 0)"
      using ab by (simp add: accounted_def)
    have 2: "sent_count (HalftimeMsg k) c + (if k \<in> alerted_games b then 1 else 0)
          = sent_count (HalftimeMsg k) b + (if k \<in> alerted_games c then 1 else 0)"
      using bc by (simp add: accounted_def)
    from 1 2 show ?thesis by (simp split: if_splits)
  qed
  have p: "sent_count ScheduleMsg c + (if posted_schedule_for_day a then 1 else 0)
       = sent_count ScheduleMsg a + (if posted_schedule_for_day c then 1 else 0)"
  proof -
    have 1: "sent_count ScheduleMsg b + (if posted_schedule_for_day a then 1 else 0)
       = sent_count ScheduleMsg a + (if posted_schedule_for_day b then 1 else 0)"
      using ab by (simp add: accounted_def)
    have 2: "sent_count ScheduleMsg c + (if posted_schedule_for_day b then 1 else 0)
       = sent_count ScheduleMsg b + (if posted_schedule_for_day c then 1 else 0)"
      using bc by (simp add: accounted_def)
    from 1 2 show ?thesis by (simp split: if_splits)
  qed
  have tr: "\<exists>ev. trace c = trace a @ ev"
    using ab bc by (auto simp: accounted_def)
  have rest: "sleep_count c = sleep_count a + (m + n)"
    "last_day c = last_day a" "alerted_games a \<subseteq> alerted_games c"
    "posted_schedule_for_day a \<longrightarrow> posted_schedule_for_day c"
    using ab bc by (auto simp: accounted_def)
  show ?thesis
    unfolding accounted_def using h p tr rest by blast
qed

lemma accounted_trans: "accounted 0 a b \<Longrightarrow> accounted 0 b c \<Longrightarrow> accounted 0 a c"
  using accounted_add [of 0 a b 0 c] by simp

lemma quiet_accounted: "quiet s s' \<Longrightarrow> accounted 0 s s'"
  by (simp add: quiet_def accounted_def)

lemma sent_count_clock [simp]: "sent_count l (s\<lparr>clock := c\<rparr>) = sent_count l s"
  by (simp add: sent_count_def)

lemma fetch_scoreboard_quiet: "fetch_scoreboard w s = (r, s') \<Longrightarrow> quiet s s'"
  by (auto simp: fetch_scoreboard_def Let_def quiet_def sent_count_def sleep_count_def
           split: get_outcome.splits sum.splits option.splits)

lemma send_discord_effect:
  assumes "send_discord g w l m s = (r, s')"
  shows "(\<exists>ev. trace s' = trace s @ ev) \<and> sleep_count s' = sleep_count s \<and>
         last_day s' = last_day s \<and> alerted_games s' = alerted_games s \<and>
         posted_schedule_for_day s' = posted_schedule_for_day s \<and>
         (\<forall>l'. sent_count l' s' = sent_count l' s + (if l' = l \<and> r = Inr () then 1 else 0))"
  using assms
  by (auto simp: send_discord_def Let_def sent_count_def sleep_count_def raise_for_status_def
           split: option.splits json.splits http_outcome.splits if_splits)

lemma send_discord_other:
  assumes "send_discord g w l m s = (r, s')" and "l = DayResetMsg \<or> l = StartupMsg"
  shows "accounted 0 s s'"
  using send_discord_effect [OF assms(1)] assms(2) by (auto simp: accounted_def)

lemma schedule_line_quiet: "schedule_line w e s = (r, s') \<Longrightarrow> quiet s s'"
  by (auto simp: schedule_line_def sbind_def lift_def quiet_def Let_def sent_count_def
                 sleep_count_def
           split: prod.splits sum.splits option.splits)

lemma schedule_lines_quiet: "schedule_lines w es s = (r, s') \<Longrightarrow> quiet s s'"
proof (induction es arbitrary: s r s')
  case Nil
  then show ?case by (simp add: quiet_refl)
next
  case (Cons e es)
  from Cons.prems have run:
    "sbind (schedule_line w e) (\<lambda>l. sbind (schedule_lines w es) (\<lambda>ls. lift (Inr (l # ls)))) s = (r, s')"
    by simp
  show ?case
  proof (rule sbind_rel [OF run])
    show "quiet s s1" if "schedule_line w e s = (r1, s1)" for r1 s1
      using that by (rule schedule_line_quiet)
    show "quiet s1 s'"
      if "sbind (schedule_lines w es) (\<lambda>ls. lift (Inr (x # ls))) s1 = (r, s')" for x s1
    proof (rule sbind_rel [OF that])
      show "quiet s1 s2" if "schedule_lines w es s1 = (r2, s2)" for r2 s2
        using that by (rule Cons.IH)
      show "quiet s2 s'" if "lift (Inr (x # xa)) s2 = (r, s')" for xa s2
        using lift_same [OF that] by (simp add: quiet_refl)
    qed (rule quiet_trans)
  qed (rule quiet_trans)
qed

lemma send_then_mark_posted:
  assumes run: "sbind (send_discord g w ScheduleMsg m) (\<lambda>_. mark_posted) s = (r, s')"
    and np: "\<not> posted_schedule_for_day s"
  shows "accounted 0 s s'"
proof -
  from sbind_cases [OF run] show ?thesis
  proof (elim disjE exE conjE)
    fix e assume "send_discord g w ScheduleMsg m s = (Inl e, s')"
    from send_discord_effect [OF this] np show ?thesis
      by (auto simp: accounted_def)
  next
    fix x s1 assume a: "send_discord g w ScheduleMsg m s = (Inr x, s1)" and b: "mark_posted s1 = (r, s')"
    from b have s': "s' = s1\<lparr>posted_schedule_for_day := True\<rparr>" by (simp add: mark_posted_def)
    from send_discord_effect [OF a] np show ?thesis
      by (auto simp: accounted_def s' sent_count_def sleep_count_def)
  qed
qed

lemma post_schedule_once_accounted:
  assumes run: "post_schedule_once g w events s = (r, s')"
  shows "accounted 0 s s'"
proof (cases "posted_schedule_for_day s")
  case True
  with run show ?thesis by (simp add: post_schedule_once_def accounted_refl)
next
  case np: False
  show ?thesis
  proof (cases "truthy events")
    case False
    with np run show ?thesis
      by (auto simp: post_schedule_once_def intro: send_then_mark_posted)
  next
    case True
    with np run have run':
      "sbind (lift (py_iter events)) (\<lambda>es.
        sbind (lift (sort_keys w es)) (\<lambda>ks.
        sbind (schedule_lines w (map snd (sort_key fst (zip ks es)))) (\<lambda>lines.
        sbind (send_discord g w ScheduleMsg (schedule_header @ join_lines lines))
          (\<lambda>_. mark_posted)))) s = (r, s')"
      by (simp add: post_schedule_once_def)
    from sbind_cases [OF run'] show ?thesis
    proof (elim disjE exE conjE)
      fix e assume "lift (py_iter events) s = (Inl e, s')"
      then show ?thesis using lift_same accounted_refl by metis
    next
      fix es s1
      assume a1: "lift (py_iter events) s = (Inr es, s1)"
        and r1: "sbind (lift (sort_keys w es)) (\<lambda>ks.
        sbind (schedule_lines w (map snd (sort_key fst (zip ks es)))) (\<lambda>lines.
        sbind (send_discord g w ScheduleMsg (schedule_header @ join_lines lines))
          (\<lambda>_. mark_posted))) s1 = (r, s')"
      have s1: "s1 = s" using lift_same [OF a1] .
      from sbind_cases [OF r1] show ?thesis
      proof (elim disjE exE conjE)
        fix e assume "lift (sort_keys w es) s1 = (Inl e, s')"
        then show ?thesis using lift_same accounted_refl s1 by metis
      next
        fix ks s2
        assume a2: "lift (sort_keys w es) s1 = (Inr ks, s2)"
          and r2: "sbind (schedule_lines w (map snd (sort_key fst (zip ks es)))) (\<lambda>lines.
            sbind (send_discord g w ScheduleMsg (schedule_header @ join_lines lines))
            (\<lambda>_. mark_posted)) s2 = (r, s')"
        have s2: "s2 = s" using lift_same [OF a2] s1 by simp
        from sbind_cases [OF r2] show ?thesis
        proof (elim disjE exE conjE)
          fix e assume "schedule_lines w (map snd (sort_key fst (zip ks es))) s2 = (Inl e, s')"
          from schedule_lines_quiet [OF this] show ?thesis by (simp add: s2 quiet_accounted)
        next
          fix lines s3
          assume a3: "schedule_lines w (map snd (sort_key fst (zip ks es))) s2 = (Inr lines, s3)"
            and r3: "sbind (send_discord g w ScheduleMsg (schedule_header @ join_lines lines))
               (\<lambda>_. mark_posted) s3 = (r, s')"
          have q: "quiet s s3" using schedule_lines_quiet [OF a3] by (simp add: s2)
          then have "\<not> posted_schedule_for_day s3" using np by (simp add: quiet_def)
          from send_then_mark_posted [OF r3 this] quiet_accounted [OF q]
          show ?thesis by (rule accounted_trans [rotated])
        qed
      qed
    qed
  qed
qed

lemma send_then_mark_alerted:
  assumes run: "sbind (send_discord g w (HalftimeMsg k) m) (\<lambda>_. mark_alerted k) s = (r, s')"
    and nk: "k \<notin> alerted_games s"
  shows "accounted 0 s s'"
proof -
  from sbind_cases [OF run] show ?thesis
  proof (elim disjE exE conjE)
    fix e assume "send_discord g w (HalftimeMsg k) m s = (Inl e, s')"
    from send_discord_effect [OF this] show ?thesis
      by (auto simp: accounted_def)
  next
    fix x s1 assume a: "send_discord g w (HalftimeMsg k) m s = (Inr x, s1)"
      and b: "mark_alerted k s1 = (r, s')"
    from b have s': "s' = s1\<lparr>alerted_games := insert k (alerted_games s1)\<rparr>"
      by (simp add: mark_alerted_def)
    from send_discord_effect [OF a] nk show ?thesis
      by (auto simp: accounted_def s' sent_count_def sleep_count_def)
  qed
qed

lemma halftime_alert_accounted:
  assumes run: "halftime_alert g w event s = (r, s')"
  shows "accounted 0 s s'"
  using run
  by (auto simp: halftime_alert_def accounted_refl
           split: sum.splits if_splits bool.splits option.splits
           intro: send_then_mark_alerted)

lemma halftime_alerts_accounted:
  "halftime_alerts g w events s = (r, s') \<Longrightarrow> accounted 0 s s'"
proof (induction events arbitrary: s)
  case Nil
  then show ?case by (simp add: accounted_refl)
next
  case (Cons event events)
  from Cons.prems
  have run: "sbind (halftime_alert g w event) (\<lambda>_. halftime_alerts g w events) s = (r, s')"
    by simp
  show ?case
    by (rule sbind_rel [OF run]) (blast intro: halftime_alert_accounted Cons.IH accounted_trans)+
qed

lemma lift_accounted: "lift x s = (r, s') \<Longrightarrow> accounted 0 s s'"
  using lift_same accounted_refl by metis

lemma check_games_accounted:
  assumes run: "check_games g w s = (r, s')"
  shows "accounted 0 s s'"
proof -
  note run' = run [unfolded check_games_def]
  show ?thesis
  proof (rule sbind_rel [OF run'])
    show "accounted 0 s s1" if "fetch_scoreboard w s = (r1, s1)" for r1 s1
      using fetch_scoreboard_quiet [OF that] by (rule quiet_accounted)
  next
    fix data s1
    assume r1: "sbind (lift (dict_get data ''events'' (JArr []))) (\<lambda>events.
       sbind (post_schedule_once g w events) (\<lambda>_.
       sbind (lift (py_iter events)) (\<lambda>es. halftime_alerts g w es))) s1 = (r, s')"
    show "accounted 0 s1 s'"
    proof (rule sbind_rel [OF r1])
      show "accounted 0 s1 s2" if "lift (dict_get data ''events'' (JArr [])) s1 = (r2, s2)" for r2 s2
        using that by (rule lift_accounted)
    next
      fix events s2
      assume r2: "sbind (post_schedule_once g w events) (\<lambda>_.
         sbind (lift (py_iter events)) (\<lambda>es. halftime_alerts g w es)) s2 = (r, s')"
      show "accounted 0 s2 s'"
      proof (rule sbind_rel [OF r2])
        show "accounted 0 s2 s3" if "post_schedule_once g w events s2 = (r3, s3)" for r3 s3
          using that by (rule post_schedule_once_accounted)
      next
        fix u s3
        assume r3: "sbind (lift (py_iter events)) (\<lambda>es. halftime_alerts g w es) s3 = (r, s')"
        show "accounted 0 s3 s'"
          by (rule sbind_rel [OF r3])
             (blast intro: lift_accounted halftime_alerts_accounted accounted_trans)+
      qed (rule accounted_trans)
    qed (rule accounted_trans)
  qed (rule accounted_trans)
qed

lemma accounted_clock: "accounted 0 s (s\<lparr>clock := c\<rparr>)"
  by (simp add: accounted_def sleep_count_def)

lemma loop_body_same_day:
  assumes run: "loop_body g w s = (r, s')" and same: "today_at w (clock s) = last_day s"
  shows "accounted 0 s s'"
proof -
  from run same have "check_games g w (s\<lparr>clock := clock s + 1\<rparr>) = (r, s')"
    by (simp add: loop_body_def Let_def)
  from check_games_accounted [OF this] accounted_clock [of s "clock s + 1"]
  show ?thesis by (rule accounted_trans [rotated])
qed

lemma loop_iteration_trace:
  "loop_iteration g w s =
     (case loop_body g w s of
        (Inl e, s1) \<Rightarrow> s1\<lparr>trace := trace s1 @ [Print e, Sleep POLL_SECONDS]\<rparr>
      | (Inr u, s1) \<Rightarrow> s1\<lparr>trace := trace s1 @ [Sleep POLL_SECONDS]\<rparr>)"
  by (simp add: loop_iteration_def Let_def split: prod.splits sum.splits)

lemma accounted_handler:
  "loop_body g w s = (r, s1) \<Longrightarrow> accounted 1 s1 (loop_iteration g w s)"
  by (cases r) (simp_all add: loop_iteration_trace accounted_def sent_count_def sleep_count_def)

lemma loop_iteration_same_day:
  assumes same: "today_at w (clock s) = last_day s"
  shows "accounted 1 s (loop_iteration g w s)"
proof -
  obtain r s1 where run: "loop_body g w s = (r, s1)" by (cases "loop_body g w s")
  from accounted_add [OF loop_body_same_day [OF run same] accounted_handler [OF run]]
  show ?thesis by simp
qed

lemma poll_loop_same_day:
  assumes day: "\<forall>n. today_at w n = d"
  shows "last_day s = d \<Longrightarrow> accounted n s (poll_loop n g w s)"
proof (induction n arbitrary: s)
  case 0
  then show ?case by (simp add: accounted_refl)
next
  case (Suc n)
  have same: "today_at w (clock s) = last_day s" using day Suc.prems by simp
  have step: "accounted 1 s (loop_iteration g w s)" by (rule loop_iteration_same_day [OF same])
  then have "last_day (loop_iteration g w s) = d" using Suc.prems by (simp add: accounted_def)
  from accounted_add [OF step Suc.IH [OF this]] show ?case
    by simp
qed

lemma loop_body_rollover:
  assumes diff: "today_at w (clock s) \<noteq> last_day s"
  shows "loop_body g w s =
     sbind (send_discord g w DayResetMsg day_reset_text) (\<lambda>_.
       sbind (check_games g w) (\<lambda>_. check_games g w)) (reset_state w s)"
  using diff by (simp add: loop_body_def Let_def reset_state_def)

lemma rollover_run_accounted:
  assumes run: "sbind (send_discord g w DayResetMsg day_reset_text) (\<lambda>_.
       sbind (check_games g w) (\<lambda>_. check_games g w)) s0 = (r, s')"
  shows "accounted 0 s0 s'"
proof (rule sbind_rel [OF run])
  show "accounted 0 s0 s1" if "send_discord g w DayResetMsg day_reset_text s0 = (r1, s1)" for r1 s1
    using that by (rule send_discord_other) simp
next
  fix u s1
  assume r1: "sbind (check_games g w) (\<lambda>_. check_games g w) s1 = (r, s')"
  show "accounted 0 s1 s'"
    by (rule sbind_rel [OF r1]) (blast intro: check_games_accounted accounted_trans)+
qed (rule accounted_trans)

lemma loop_iteration_rollover:
  assumes diff: "today_at w (clock s) \<noteq> last_day s"
  shows "accounted 1 (reset_state w s) (loop_iteration g w s)"
proof -
  obtain r s1 where run: "loop_body g w s = (r, s1)" by (cases "loop_body g w s")
  from run have "sbind (send_discord g w DayResetMsg day_reset_text) (\<lambda>_.
       sbind (check_games g w) (\<lambda>_. check_games g w)) (reset_state w s) = (r, s1)"
    by (simp add: loop_body_rollover [OF diff])
  from accounted_add [OF rollover_run_accounted [OF this] accounted_handler [OF run]]
  show ?thesis by simp
qed

lemma reset_state_simps [simp]:
  "alerted_games (reset_state w s) = {}"
  "posted_schedule_for_day (reset_state w s) = False"
  "last_day (reset_state w s) = today_at w (clock s + 1)"
  "sent_count l (reset_state w s) = sent_count l s"
  "sleep_count (reset_state w s) = sleep_count s"
  "trace (reset_state w s) = trace s"
  by (simp_all add: reset_state_def sent_count_def sleep_count_def)

lemma poll_loop_one_day:
  assumes day: "\<forall>n. today_at w n = d"
  shows "accounted n (if last_day s = d \<or> n = 0 then s else reset_state w s) (poll_loop n g w s)"
proof (cases "last_day s = d")
  case True
  from poll_loop_same_day [OF day True, of n g] True show ?thesis by simp
next
  case False
  show ?thesis
  proof (cases n)
    case 0
    then show ?thesis by (simp add: accounted_refl)
  next
    case (Suc m)
    let ?s1 = "loop_iteration g w s"
    have diff: "today_at w (clock s) \<noteq> last_day s" using day False by simp
    have a: "accounted 1 (reset_state w s) ?s1" by (rule loop_iteration_rollover [OF diff])
    then have "last_day ?s1 = d" using day by (simp add: accounted_def)
    from poll_loop_same_day [OF day this, of m g]
    have b: "accounted m ?s1 (poll_loop m g w ?s1)" .
    from accounted_add [OF a b] show ?thesis
      using False Suc by simp
  qed
qed

lemma loop_iteration_sleeps: "sleep_count (loop_iteration g w s) = sleep_count s + 1"
proof (cases "today_at w (clock s) = last_day s")
  case True
  from loop_iteration_same_day [OF True, of g] show ?thesis by (simp add: accounted_def)
next
  case False
  from loop_iteration_rollover [OF False, of g] show ?thesis by (simp add: accounted_def)
qed

lemma poll_loop_sleeps: "sleep_count (poll_loop n g w s) = sleep_count s + n"
  by (induction n arbitrary: s) (simp_all add: loop_iteration_sleeps)

lemma send_discord_trace:
  assumes "send_discord g w l m s = (r, s1)"
  shows "trace s1 = trace s \<or>
         (\<exists>url. DISCORD_WEBHOOK g = Some (JStr url) \<and>
            trace s1 = trace s @ [Post l url m (post_at w (clock s))])"
  using assms
  by (auto simp: send_discord_def Let_def split: option.splits json.splits http_outcome.splits)

lemma send_discord_returns:
  assumes "send_discord g w l m s = (Inr u, s1)"
  shows "\<exists>url. DISCORD_WEBHOOK g = Some (JStr url) \<and>
            trace s1 = trace s @ [Post l url m (post_at w (clock s))]"
  using assms
  by (auto simp: send_discord_def Let_def split: option.splits json.splits http_outcome.splits)

lemma startup_accounted:
  assumes run: "startup g w s = (r, s')"
  shows "accounted 0 s s'"
proof -
  have send: "accounted 0 s0 s2"
    if "sbind (send_discord g w StartupMsg m) (\<lambda>_. check_games g w) s0 = (r, s2)" for m s0 s2
    by (rule sbind_rel [OF that])
       (blast intro: send_discord_other check_games_accounted accounted_trans)+
  from run show ?thesis
    by (auto simp: startup_def accounted_refl split: option.splits json.splits if_splits
             intro: send)
qed

subsection \<open>The float of \<open>total_seconds\<close>\<close>

lemma bit_length_le: "n < 2 ^ b \<Longrightarrow> bit_length n \<le> b"
proof (induction b arbitrary: n)
  case 0
  then show ?case by (simp add: bit_length.simps)
next
  case (Suc b)
  show ?case
  proof (cases "n \<le> 0")
    case True
    then show ?thesis by (simp add: bit_length.simps)
  next
    case False
    from Suc.prems have "n div 2 < 2 ^ b" by simp
    from Suc.IH [OF this] False show ?thesis by (subst bit_length.simps) simp
  qed
qed

lemma round_half_even_bounds:
  "n div d \<le> round_half_even n d \<and> round_half_even n d \<le> n div d + 1 \<and>
   (round_half_even n d = n div d + 1 \<longrightarrow> d \<le> 2 * (n mod d))"
  by (auto simp: round_half_even_def Let_def)

lemma round_scaled_exact:
  assumes s: "19 \<le> s" and n0: "0 \<le> n"
  shows "round_half_even (n * 2 ^ s) 1000000 div 2 ^ s = n div 1000000"
proof -
  define P :: int where "P = 2 ^ s"
  define k where "k = n div 1000000"
  define r0 where "r0 = n mod 1000000"
  define B where "B = r0 * P"
  define m where "m = round_half_even (n * P) 1000000"
  have "(2::int) ^ 19 \<le> 2 ^ s" using s by (intro power_increasing) simp_all
  then have P: "524288 \<le> P" by (simp add: P_def)
  have r0: "0 \<le> r0" "r0 \<le> 999999"
  proof -
    show "0 \<le> r0" by (simp add: r0_def)
    have "r0 < 1000000" by (simp add: r0_def)
    then show "r0 \<le> 999999" by simp
  qed
  have B: "B \<le> 999999 * P" "0 \<le> B"
    unfolding B_def using r0 P by (simp_all add: mult_right_mono)
  have n: "n = k * 1000000 + r0" by (simp add: k_def r0_def)
  have N: "n * P = B + (k * P) * 1000000" by (simp add: n B_def algebra_simps)
  have dv: "(n * P) div 1000000 = k * P + B div 1000000"
    and md: "(n * P) mod 1000000 = B mod 1000000"
    by (simp_all add: N)
  from round_half_even_bounds [of "n * P" 1000000]
  have lo: "k * P + B div 1000000 \<le> m"
    and hi: "m \<le> k * P + B div 1000000 + 1"
    and up: "m = k * P + B div 1000000 + 1 \<longrightarrow> 1000000 \<le> 2 * (B mod 1000000)"
    by (simp_all add: m_def dv md)
  have Bsplit: "B = (B div 1000000) * 1000000 + B mod 1000000" by simp
  have rlt: "B mod 1000000 < 1000000" "0 \<le> B mod 1000000" by simp_all
  have q0: "0 \<le> B div 1000000" using B by (simp add: pos_imp_zdiv_nonneg_iff)
  have lower: "0 \<le> m - P * k" using lo q0 by (simp add: mult.commute)
  have upper: "m - P * k < P"
  proof -
    have "m < k * P + P" using hi up Bsplit rlt B P by arith
    then show ?thesis by (simp add: mult.commute)
  qed
  have "m = P * k + (m - P * k)" by simp
  from int_div_pos_eq [OF this lower upper] have "m div P = k" .
  then show ?thesis by (simp add: m_def P_def k_def)
qed

lemma int_true_divide_exact:
  assumes "0 \<le> n" "n < 17179869184000000"
  shows "int_true_divide n 1000000 = n div 1000000"
proof (cases "n = 0")
  case True
  then show ?thesis by (simp add: int_true_divide_def)
next
  case n0: False
  show ?thesis
  proof (cases "1000000 \<le> n")
    case True
    have "n div 1000000 < 2 ^ 34" using assms by simp
    then have "bit_length (n div 1000000) \<le> 34" by (rule bit_length_le)
    then have e: "bit_length (n div 1000000) - 1 \<le> 33" by simp
    then have "19 \<le> 52 - (bit_length (n div 1000000) - 1)" by simp
    from round_scaled_exact [OF this assms(1)] e n0 True show ?thesis
      by (simp add: int_true_divide_def Let_def)
  next
    case False
    have "19 \<le> 52 + bit_length (999999 div n)" by simp
    from round_scaled_exact [OF this assms(1)] n0 False show ?thesis
      by (simp add: int_true_divide_def Let_def)
  qed
qed

lemma int_true_divide_nonneg: "0 \<le> n \<Longrightarrow> 0 < d \<Longrightarrow> 0 \<le> int_true_divide n d"
proof -
  assume n: "0 \<le> n" and d: "0 < d"
  have r: "0 \<le> round_half_even a b" if "0 \<le> a" "0 < b" for a b :: int
    using round_half_even_bounds [of a b] that
    by (meson order_trans pos_imp_zdiv_nonneg_iff)
  show ?thesis
    using n d by (auto simp: int_true_divide_def Let_def intro!: r pos_imp_zdiv_nonneg_iff [THEN iffD2] mult_nonneg_nonneg)
qed

lemma total_seconds_int_exact:
  "0 \<le> delta \<Longrightarrow> delta < 17179869184000000 \<Longrightarrow> total_seconds_int delta = delta div 1000000"
  by (simp add: total_seconds_int_def int_true_divide_exact)

lemma total_seconds_int_neg: "delta < 0 \<Longrightarrow> total_seconds_int delta \<le> 0"
  using int_true_divide_nonneg [of "- delta" 1000000] by (simp add: total_seconds_int_def)

section \<open>The claims\<close>

text \<open>
  C1. Over any number of passes of the poll loop during which every read of the date gives
  the same day, at most one halftime notification is sent for a game key: the count of
  accepted halftime POSTs for the key grows by at most one, and not at all when the key is
  already in the alerted set of that day. A check cycle sends an alert for a key only when
  the key is not in the set, and the key is in the set afterwards.
\<close>

theorem halftime_alert_once_per_day:
  assumes day: "\<forall>n. today_at w n = d"
  shows "sent_count (HalftimeMsg k) (poll_loop n g w s) \<le> sent_count (HalftimeMsg k) s + 1 \<and>
         (last_day s = d \<and> k \<in> alerted_games s \<longrightarrow>
            sent_count (HalftimeMsg k) (poll_loop n g w s) = sent_count (HalftimeMsg k) s) \<and>
         (sent_count (HalftimeMsg k) (snd (check_games g w s)) \<noteq> sent_count (HalftimeMsg k) s
            \<longrightarrow> k \<notin> alerted_games s \<and> k \<in> alerted_games (snd (check_games g w s)))"
proof -
  let ?s0 = "if last_day s = d \<or> n = 0 then s else reset_state w s"
  obtain r s' where run: "check_games g w s = (r, s')" by (cases "check_games g w s")
  from check_games_accounted [OF run]
  have eq': "sent_count (HalftimeMsg k) s' + (if k \<in> alerted_games s then 1 else 0)
      = sent_count (HalftimeMsg k) s + (if k \<in> alerted_games s' then 1 else 0)"
    and sub': "alerted_games s \<subseteq> alerted_games s'"
    unfolding accounted_def by blast+
  have a: "accounted n ?s0 (poll_loop n g w s)" by (rule poll_loop_one_day [OF day])
  then have eq: "sent_count (HalftimeMsg k) (poll_loop n g w s)
        + (if k \<in> alerted_games ?s0 then 1 else 0)
      = sent_count (HalftimeMsg k) ?s0
        + (if k \<in> alerted_games (poll_loop n g w s) then 1 else 0)"
    and sub: "alerted_games ?s0 \<subseteq> alerted_games (poll_loop n g w s)"
    unfolding accounted_def by blast+
  have c: "sent_count (HalftimeMsg k) ?s0 = sent_count (HalftimeMsg k) s" by simp
  show ?thesis
  proof (intro conjI impI)
    show "sent_count (HalftimeMsg k) (poll_loop n g w s) \<le> sent_count (HalftimeMsg k) s + 1"
      using eq c by (simp split: if_splits)
    assume h: "last_day s = d \<and> k \<in> alerted_games s"
    then have "k \<in> alerted_games (poll_loop n g w s)" using sub by auto
    with h eq show "sent_count (HalftimeMsg k) (poll_loop n g w s) = sent_count (HalftimeMsg k) s"
      by simp
  next
    assume "sent_count (HalftimeMsg k) (snd (check_games g w s)) \<noteq> sent_count (HalftimeMsg k) s"
    then have ne: "sent_count (HalftimeMsg k) s' \<noteq> sent_count (HalftimeMsg k) s"
      by (simp add: run)
    show "k \<notin> alerted_games s"
    proof
      assume k: "k \<in> alerted_games s"
      then have "k \<in> alerted_games s'" using sub' by auto
      with k eq' ne show False by simp
    qed
    show "k \<in> alerted_games (snd (check_games g w s))"
    proof (rule ccontr)
      assume "k \<notin> alerted_games (snd (check_games g w s))"
      then have k': "k \<notin> alerted_games s'" by (simp add: run)
      then have "k \<notin> alerted_games s" using sub' by auto
      with k' eq' ne show False by simp
    qed
  qed
qed

text \<open>A day with one game at halftime, starting with the set empty and starting with the game in it.\<close>

theorem halftime_alert_once_per_day_witness:
  "(\<forall>n. today_at steady_world n = 5) \<and>
   sent_count (HalftimeMsg (JStr ''401'')) (poll_loop 3 bound_globals steady_world (state0 5))
     \<le> sent_count (HalftimeMsg (JStr ''401'')) (state0 5) + 1 \<and>
   sent_count (HalftimeMsg (JStr ''401'')) (poll_loop 3 bound_globals steady_world (state0 5)) = 1 \<and>
   last_day alerted_state = 5 \<and> JStr ''401'' \<in> alerted_games alerted_state \<and>
   sent_count (HalftimeMsg (JStr ''401'')) (poll_loop 3 bound_globals steady_world alerted_state)
     = sent_count (HalftimeMsg (JStr ''401'')) alerted_state"
proof -
  have d: "\<forall>n. today_at steady_world n = 5" by (simp add: steady_world_def world_def)
  have a: "last_day alerted_state = 5 \<and> JStr ''401'' \<in> alerted_games alerted_state"
    by (simp add: alerted_state_def)
  have e: "sent_count (HalftimeMsg (JStr ''401''))
             (poll_loop 3 bound_globals steady_world (state0 5)) = 1"
    by code_simp
  from halftime_alert_once_per_day [OF d, of "JStr ''401''" 3 bound_globals "state0 5"]
       halftime_alert_once_per_day [OF d, of "JStr ''401''" 3 bound_globals alerted_state] d a e
  show ?thesis by blast
qed

text \<open>
  C2. Whatever exception the body of a pass raises, the pass ends with the exception
  printed and the sleep, in the state the body had reached; \<open>n\<close> passes always make \<open>n\<close>
  sleeps, so a failed pass never stops the next one; and a pass of the same day, failed or
  not, keeps every alerted key in the set and sends no alert for it.
\<close>

theorem loop_swallows_exceptions:
  "(loop_body g w s = (Inl e, s1) \<longrightarrow>
      loop_iteration g w s = s1\<lparr>trace := trace s1 @ [Print e, Sleep POLL_SECONDS]\<rparr>) \<and>
   sleep_count (poll_loop n g w s) = sleep_count s + n \<and>
   (today_at w (clock s) = last_day s \<longrightarrow>
      alerted_games s \<subseteq> alerted_games (loop_iteration g w s) \<and>
      (\<forall>k \<in> alerted_games s.
         sent_count (HalftimeMsg k) (loop_iteration g w s) = sent_count (HalftimeMsg k) s))"
proof (intro conjI impI)
  assume "loop_body g w s = (Inl e, s1)"
  then show "loop_iteration g w s = s1\<lparr>trace := trace s1 @ [Print e, Sleep POLL_SECONDS]\<rparr>"
    by (simp add: loop_iteration_trace)
next
  show "sleep_count (poll_loop n g w s) = sleep_count s + n" by (rule poll_loop_sleeps)
next
  assume same: "today_at w (clock s) = last_day s"
  from loop_iteration_same_day [OF same, of g]
  have sub: "alerted_games s \<subseteq> alerted_games (loop_iteration g w s)"
    and h: "\<And>k. sent_count (HalftimeMsg k) (loop_iteration g w s)
            + (if k \<in> alerted_games s then 1 else 0)
          = sent_count (HalftimeMsg k) s
            + (if k \<in> alerted_games (loop_iteration g w s) then 1 else 0)"
    unfolding accounted_def by blast+
  show "alerted_games s \<subseteq> alerted_games (loop_iteration g w s)" by (rule sub)
  show "\<forall>k \<in> alerted_games s.
         sent_count (HalftimeMsg k) (loop_iteration g w s) = sent_count (HalftimeMsg k) s"
  proof
    fix k assume k: "k \<in> alerted_games s"
    then have "k \<in> alerted_games (loop_iteration g w s)" using sub by auto
    with k h [of k] show "sent_count (HalftimeMsg k) (loop_iteration g w s)
        = sent_count (HalftimeMsg k) s" by simp
  qed
qed

text \<open>A pass whose fetch gets no response, and a pass of the same day with the game already alerted.\<close>

theorem loop_swallows_exceptions_witness:
  "fst (loop_body bound_globals offline_world (state0 5)) = Inl RequestException \<and>
   loop_iteration bound_globals offline_world (state0 5) =
     (snd (loop_body bound_globals offline_world (state0 5)))
       \<lparr>trace := trace (snd (loop_body bound_globals offline_world (state0 5)))
                 @ [Print RequestException, Sleep POLL_SECONDS]\<rparr> \<and>
   sleep_count (poll_loop 3 bound_globals offline_world (state0 5)) = sleep_count (state0 5) + 3 \<and>
   today_at steady_world (clock alerted_state) = last_day alerted_state \<and>
   JStr ''401'' \<in> alerted_games alerted_state \<and>
   sent_count (HalftimeMsg (JStr ''401'')) (loop_iteration bound_globals steady_world alerted_state)
     = sent_count (HalftimeMsg (JStr ''401'')) alerted_state"
proof -
  let ?b = "loop_body bound_globals offline_world (state0 5)"
  have f: "fst ?b = Inl RequestException" by code_simp
  then have b: "?b = (Inl RequestException, snd ?b)" by (metis prod.collapse)
  have t: "today_at steady_world (clock alerted_state) = last_day alerted_state"
    by (simp add: steady_world_def world_def alerted_state_def)
  have a: "JStr ''401'' \<in> alerted_games alerted_state" by (simp add: alerted_state_def)
  from loop_swallows_exceptions [of bound_globals offline_world "state0 5" RequestException "snd ?b" 3] b
  have 1: "loop_iteration bound_globals offline_world (state0 5) =
     (snd ?b)\<lparr>trace := trace (snd ?b) @ [Print RequestException, Sleep POLL_SECONDS]\<rparr>"
    and 2: "sleep_count (poll_loop 3 bound_globals offline_world (state0 5))
             = sleep_count (state0 5) + 3"
    by blast+
  from loop_swallows_exceptions [of bound_globals steady_world alerted_state RequestException alerted_state 0] t a
  have 3: "sent_count (HalftimeMsg (JStr ''401''))
             (loop_iteration bound_globals steady_world alerted_state)
     = sent_count (HalftimeMsg (JStr ''401'')) alerted_state"
    by blast
  from f 1 2 3 t a show ?thesis by blast
qed

text \<open>
  C3. Within one day at most one schedule summary is sent: the count of accepted schedule
  POSTs grows by at most one over any number of passes; once the flag is true on that day
  it stays true and no pass sends a summary; and a check cycle that starts with the flag
  true sends none.
\<close>

theorem schedule_once_per_day:
  assumes day: "\<forall>n. today_at w n = d"
  shows "sent_count ScheduleMsg (poll_loop n g w s) \<le> sent_count ScheduleMsg s + 1 \<and>
         (last_day s = d \<and> posted_schedule_for_day s \<longrightarrow>
            sent_count ScheduleMsg (poll_loop n g w s) = sent_count ScheduleMsg s \<and>
            posted_schedule_for_day (poll_loop n g w s)) \<and>
         (posted_schedule_for_day s \<longrightarrow>
            sent_count ScheduleMsg (snd (check_games g w s)) = sent_count ScheduleMsg s \<and>
            posted_schedule_for_day (snd (check_games g w s)))"
proof -
  let ?s0 = "if last_day s = d \<or> n = 0 then s else reset_state w s"
  have a: "accounted n ?s0 (poll_loop n g w s)" by (rule poll_loop_one_day [OF day])
  then have eq: "sent_count ScheduleMsg (poll_loop n g w s)
        + (if posted_schedule_for_day ?s0 then 1 else 0)
      = sent_count ScheduleMsg ?s0
        + (if posted_schedule_for_day (poll_loop n g w s) then 1 else 0)"
    and keep: "posted_schedule_for_day ?s0 \<longrightarrow> posted_schedule_for_day (poll_loop n g w s)"
    unfolding accounted_def by blast+
  have c: "sent_count ScheduleMsg ?s0 = sent_count ScheduleMsg s" by simp
  obtain r s' where run: "check_games g w s = (r, s')" by (cases "check_games g w s")
  from check_games_accounted [OF run]
  have eq': "sent_count ScheduleMsg s' + (if posted_schedule_for_day s then 1 else 0)
      = sent_count ScheduleMsg s + (if posted_schedule_for_day s' then 1 else 0)"
    and keep': "posted_schedule_for_day s \<longrightarrow> posted_schedule_for_day s'"
    unfolding accounted_def by blast+
  show ?thesis
  proof (intro conjI impI)
    show "sent_count ScheduleMsg (poll_loop n g w s) \<le> sent_count ScheduleMsg s + 1"
      using eq c by (simp split: if_splits)
  next
    assume h: "last_day s = d \<and> posted_schedule_for_day s"
    with keep show p: "posted_schedule_for_day (poll_loop n g w s)" by simp
    with h eq show "sent_count ScheduleMsg (poll_loop n g w s) = sent_count ScheduleMsg s"
      by simp
  next
    assume h: "posted_schedule_for_day s"
    with keep' show p: "posted_schedule_for_day (snd (check_games g w s))" by (simp add: run)
    with h eq' show "sent_count ScheduleMsg (snd (check_games g w s)) = sent_count ScheduleMsg s"
      by (simp add: run)
  qed
qed

text \<open>Three passes of one day, starting with the flag false and starting with it true.\<close>

theorem schedule_once_per_day_witness:
  "(\<forall>n. today_at steady_world n = 5) \<and>
   sent_count ScheduleMsg (poll_loop 3 bound_globals steady_world (state0 5))
     \<le> sent_count ScheduleMsg (state0 5) + 1 \<and>
   sent_count ScheduleMsg (poll_loop 3 bound_globals steady_world (state0 5)) = 1 \<and>
   last_day alerted_state = 5 \<and> posted_schedule_for_day alerted_state \<and>
   sent_count ScheduleMsg (poll_loop 3 bound_globals steady_world alerted_state)
     = sent_count ScheduleMsg alerted_state \<and>
   sent_count ScheduleMsg (snd (check_games bound_globals steady_world alerted_state))
     = sent_count ScheduleMsg alerted_state"
proof -
  have d: "\<forall>n. today_at steady_world n = 5" by (simp add: steady_world_def world_def)
  have a: "last_day alerted_state = 5 \<and> posted_schedule_for_day alerted_state"
    by (simp add: alerted_state_def)
  have e: "sent_count ScheduleMsg (poll_loop 3 bound_globals steady_world (state0 5)) = 1"
    by code_simp
  from schedule_once_per_day [OF d, of 3 bound_globals "state0 5"]
       schedule_once_per_day [OF d, of 3 bound_globals alerted_state] d a e
  show ?thesis by blast
qed

text \<open>
  C4, as the code has it. A pass that finds a new day empties the alerted set, sets the
  flag false and the day to the date just read, and then calls \<^verbatim>\<open>send_discord\<close> for the
  reset notification: if that call raises, the pass ends there with no check cycle; if it
  returns, two check cycles follow. After the pass the set and the flag hold exactly what
  was sent during it, whatever the set held the day before.
\<close>

theorem rollover_tick:
  assumes diff: "today_at w (clock s) \<noteq> last_day s"
  shows "(\<forall>e s1. send_discord g w DayResetMsg day_reset_text (reset_state w s) = (Inl e, s1) \<longrightarrow>
            loop_body g w s = (Inl e, s1)) \<and>
         (\<forall>u s1. send_discord g w DayResetMsg day_reset_text (reset_state w s) = (Inr u, s1) \<longrightarrow>
            loop_body g w s = sbind (check_games g w) (\<lambda>_. check_games g w) s1) \<and>
         last_day (loop_iteration g w s) = today_at w (clock s + 1) \<and>
         (\<forall>k. sent_count (HalftimeMsg k) (loop_iteration g w s) =
               sent_count (HalftimeMsg k) s
               + (if k \<in> alerted_games (loop_iteration g w s) then 1 else 0)) \<and>
         sent_count ScheduleMsg (loop_iteration g w s) =
           sent_count ScheduleMsg s
           + (if posted_schedule_for_day (loop_iteration g w s) then 1 else 0)"
proof -
  note body = loop_body_rollover [OF diff, of g]
  from loop_iteration_rollover [OF diff, of g]
  have day: "last_day (loop_iteration g w s) = last_day (reset_state w s)"
    and h: "\<And>k. sent_count (HalftimeMsg k) (loop_iteration g w s)
            + (if k \<in> alerted_games (reset_state w s) then 1 else 0)
          = sent_count (HalftimeMsg k) (reset_state w s)
            + (if k \<in> alerted_games (loop_iteration g w s) then 1 else 0)"
    and p: "sent_count ScheduleMsg (loop_iteration g w s)
            + (if posted_schedule_for_day (reset_state w s) then 1 else 0)
          = sent_count ScheduleMsg (reset_state w s)
            + (if posted_schedule_for_day (loop_iteration g w s) then 1 else 0)"
    unfolding accounted_def by blast+
  show ?thesis
  proof (intro conjI allI impI)
    fix e s1
    assume "send_discord g w DayResetMsg day_reset_text (reset_state w s) = (Inl e, s1)"
    then show "loop_body g w s = (Inl e, s1)" by (simp add: body sbind_def)
  next
    fix u s1
    assume "send_discord g w DayResetMsg day_reset_text (reset_state w s) = (Inr u, s1)"
    then show "loop_body g w s = sbind (check_games g w) (\<lambda>_. check_games g w) s1"
      by (simp add: body sbind_def [of "send_discord g w DayResetMsg day_reset_text"])
  next
    show "last_day (loop_iteration g w s) = today_at w (clock s + 1)" using day by simp
  next
    fix k
    show "sent_count (HalftimeMsg k) (loop_iteration g w s) =
               sent_count (HalftimeMsg k) s
               + (if k \<in> alerted_games (loop_iteration g w s) then 1 else 0)"
      using h [of k] by simp
  next
    show "sent_count ScheduleMsg (loop_iteration g w s) =
           sent_count ScheduleMsg s
           + (if posted_schedule_for_day (loop_iteration g w s) then 1 else 0)"
      using p by simp
  qed
qed

text \<open>The game alerted on day 5 is alerted again by the first pass of day 6.\<close>

theorem rollover_tick_witness:
  "today_at next_day_world (clock alerted_state) \<noteq> last_day alerted_state \<and>
   last_day (loop_iteration bound_globals next_day_world alerted_state)
     = today_at next_day_world (clock alerted_state + 1) \<and>
   JStr ''401'' \<in> alerted_games alerted_state \<and>
   sent_count (HalftimeMsg (JStr ''401'')) (loop_iteration bound_globals next_day_world alerted_state)
     = sent_count (HalftimeMsg (JStr ''401'')) alerted_state + 1 \<and>
   sent_count ScheduleMsg (loop_iteration bound_globals next_day_world alerted_state)
     = sent_count ScheduleMsg alerted_state + 1"
proof -
  let ?s' = "loop_iteration bound_globals next_day_world alerted_state"
  have d: "today_at next_day_world (clock alerted_state) \<noteq> last_day alerted_state"
    by (simp add: next_day_world_def world_def alerted_state_def)
  have a: "JStr ''401'' \<in> alerted_games alerted_state" by (simp add: alerted_state_def)
  have m: "JStr ''401'' \<in> alerted_games ?s'" by code_simp
  have p: "posted_schedule_for_day ?s'" by code_simp
  from rollover_tick [OF d, of bound_globals]
  have 1: "last_day ?s' = today_at next_day_world (clock alerted_state + 1)"
    and 2: "sent_count (HalftimeMsg (JStr ''401'')) ?s' =
               sent_count (HalftimeMsg (JStr ''401'')) alerted_state
               + (if JStr ''401'' \<in> alerted_games ?s' then 1 else 0)"
    and 3: "sent_count ScheduleMsg ?s' =
           sent_count ScheduleMsg alerted_state
           + (if posted_schedule_for_day ?s' then 1 else 0)"
    by blast+
  from d a 1 2 3 m p show ?thesis by simp
qed

text \<open>When the POST of the reset notification gets no response, the pass ends without any fetch.\<close>

theorem rollover_failed_reset_skips_check:
  "today_at failing_posts_world (clock (state0 5)) \<noteq> last_day (state0 5) \<and>
   trace (loop_iteration bound_globals failing_posts_world (state0 5)) =
     [Post DayResetMsg ''https://discord.com/api/webhooks/1/t'' day_reset_text NoResponse,
      Print RequestException, Sleep 60]"
  by code_simp

text \<open>
  C5, as the code has it. A check cycle adds a key to the alerted set exactly when it has
  made one accepted halftime POST for it, and sets the flag exactly when it has made one
  accepted schedule POST, where accepted means that \<^verbatim>\<open>send_discord\<close> returned: a response
  with a status outside 400 to 599. Nothing is removed, and a POST that raised changes
  neither.
\<close>

theorem marks_follow_accepted_posts:
  assumes run: "check_games g w s = (r, s')"
  shows "alerted_games s \<subseteq> alerted_games s' \<and>
         (\<forall>k. sent_count (HalftimeMsg k) s' =
                sent_count (HalftimeMsg k) s
                + (if k \<in> alerted_games s' \<and> k \<notin> alerted_games s then 1 else 0)) \<and>
         (posted_schedule_for_day s \<longrightarrow> posted_schedule_for_day s') \<and>
         sent_count ScheduleMsg s' =
           sent_count ScheduleMsg s
           + (if posted_schedule_for_day s' \<and> \<not> posted_schedule_for_day s then 1 else 0)"
proof -
  from check_games_accounted [OF run]
  have sub: "alerted_games s \<subseteq> alerted_games s'"
    and keep: "posted_schedule_for_day s \<longrightarrow> posted_schedule_for_day s'"
    and h: "\<And>k. sent_count (HalftimeMsg k) s' + (if k \<in> alerted_games s then 1 else 0)
          = sent_count (HalftimeMsg k) s + (if k \<in> alerted_games s' then 1 else 0)"
    and p: "sent_count ScheduleMsg s' + (if posted_schedule_for_day s then 1 else 0)
       = sent_count ScheduleMsg s + (if posted_schedule_for_day s' then 1 else 0)"
    unfolding accounted_def by blast+
  have h': "sent_count (HalftimeMsg k) s' =
                sent_count (HalftimeMsg k) s
                + (if k \<in> alerted_games s' \<and> k \<notin> alerted_games s then 1 else 0)" for k
    using h [of k] sub by (auto split: if_splits)
  have p': "sent_count ScheduleMsg s' =
           sent_count ScheduleMsg s
           + (if posted_schedule_for_day s' \<and> \<not> posted_schedule_for_day s then 1 else 0)"
    using p keep by (auto split: if_splits)
  show ?thesis using sub keep h' p' by blast
qed

text \<open>One check cycle with both POSTs accepted.\<close>

theorem marks_follow_accepted_posts_witness:
  "check_games bound_globals steady_world (state0 5)
     = (Inr (), snd (check_games bound_globals steady_world (state0 5))) \<and>
   alerted_games (snd (check_games bound_globals steady_world (state0 5))) = {JStr ''401''} \<and>
   sent_count (HalftimeMsg (JStr ''401'')) (snd (check_games bound_globals steady_world (state0 5)))
     = sent_count (HalftimeMsg (JStr ''401'')) (state0 5) + 1 \<and>
   sent_count ScheduleMsg (snd (check_games bound_globals steady_world (state0 5)))
     = sent_count ScheduleMsg (state0 5) + 1"
proof -
  let ?c = "check_games bound_globals steady_world (state0 5)"
  have f: "fst ?c = Inr ()" by code_simp
  then have c: "?c = (Inr (), snd ?c)" by (metis prod.collapse)
  have m: "alerted_games (snd ?c) = {JStr ''401''}" by code_simp
  have p: "posted_schedule_for_day (snd ?c)" by code_simp
  have z: "alerted_games (state0 5) = {}" "\<not> posted_schedule_for_day (state0 5)"
    by (simp_all add: state0_def)
  from marks_follow_accepted_posts [OF c]
  have 2: "sent_count (HalftimeMsg (JStr ''401'')) (snd ?c) =
                sent_count (HalftimeMsg (JStr ''401'')) (state0 5)
                + (if JStr ''401'' \<in> alerted_games (snd ?c)
                      \<and> JStr ''401'' \<notin> alerted_games (state0 5) then 1 else 0)"
    and 3: "sent_count ScheduleMsg (snd ?c) =
           sent_count ScheduleMsg (state0 5)
           + (if posted_schedule_for_day (snd ?c) \<and> \<not> posted_schedule_for_day (state0 5)
              then 1 else 0)"
    by blast+
  from c m 2 3 p z show ?thesis by simp
qed

text \<open>With status 304 for every POST, the key is added and the flag is set.\<close>

theorem mark_after_status_304:
  "alerted_games (snd (check_games bound_globals not_modified_world (state0 5))) = {JStr ''401''} \<and>
   posted_schedule_for_day (snd (check_games bound_globals not_modified_world (state0 5))) \<and>
   outcomes_of (trace (snd (check_games bound_globals not_modified_world (state0 5))))
     = [(ScheduleMsg, Response 304), (HalftimeMsg (JStr ''401''), Response 304)]"
  by code_simp

text \<open>
  C6, as the code has it. The remaining time is cut to whole seconds first. With less than
  one whole second to go (or the start in the past) the text is "started"; otherwise, for
  a start less than 2^34 seconds away, the minutes are the whole seconds over 60 rounded
  up, shown as hours and minutes with a zero term left out. (From 2^34 seconds on the
  float of \<^verbatim>\<open>total_seconds\<close> may round a fraction up to the next second.)
\<close>

theorem format_time_until_truncates:
  "(start_local - now < 1000000 \<longrightarrow> format_time_until now start_local = ''started'') \<and>
   (1000000 \<le> start_local - now \<and> start_local - now < 17179869184000000 \<longrightarrow>
      (let seconds = (start_local - now) div 1000000;
           minutes = (seconds + 59) div 60
       in 60 * (minutes - 1) < seconds \<and> seconds \<le> 60 * minutes \<and>
          format_time_until now start_local =
            (if minutes div 60 = 0 then ''in '' @ str_int (minutes mod 60) @ ''m''
             else if minutes mod 60 = 0 then ''in '' @ str_int (minutes div 60) @ ''h''
             else ''in '' @ str_int (minutes div 60) @ ''h '' @ str_int (minutes mod 60) @ ''m'')))"
proof (intro conjI impI)
  assume a: "start_local - now < 1000000"
  have "total_seconds_int (start_local - now) \<le> 0"
  proof (cases "start_local - now < 0")
    case True
    then show ?thesis by (rule total_seconds_int_neg)
  next
    case False
    with a have "total_seconds_int (start_local - now) = (start_local - now) div 1000000"
      by (intro total_seconds_int_exact) simp_all
    with a False show ?thesis by simp
  qed
  then show "format_time_until now start_local = ''started''"
    by (simp add: format_time_until_def Let_def)
next
  assume b: "1000000 \<le> start_local - now \<and> start_local - now < 17179869184000000"
  then have a: "1000000 \<le> start_local - now" by simp
  have t: "total_seconds_int (start_local - now) = (start_local - now) div 1000000"
    using b by (intro total_seconds_int_exact) simp_all
  have p: "0 < (start_local - now) div 1000000"
    using a by (simp add: pos_imp_zdiv_pos_iff)
  show "let seconds = (start_local - now) div 1000000;
           minutes = (seconds + 59) div 60
       in 60 * (minutes - 1) < seconds \<and> seconds \<le> 60 * minutes \<and>
          format_time_until now start_local =
            (if minutes div 60 = 0 then ''in '' @ str_int (minutes mod 60) @ ''m''
             else if minutes mod 60 = 0 then ''in '' @ str_int (minutes div 60) @ ''h''
             else ''in '' @ str_int (minutes div 60) @ ''h '' @ str_int (minutes mod 60) @ ''m'')"
    unfolding Let_def
  proof (intro conjI)
    show "60 * (((start_local - now) div 1000000 + 59) div 60 - 1) < (start_local - now) div 1000000"
      by presburger
    show "(start_local - now) div 1000000 \<le> 60 * (((start_local - now) div 1000000 + 59) div 60)"
      by presburger
    show "format_time_until now start_local =
    (if ((start_local - now) div 1000000 + 59) div 60 div 60 = 0
     then ''in '' @ str_int (((start_local - now) div 1000000 + 59) div 60 mod 60) @ ''m''
     else if ((start_local - now) div 1000000 + 59) div 60 mod 60 = 0
          then ''in '' @ str_int (((start_local - now) div 1000000 + 59) div 60 div 60) @ ''h''
          else ''in '' @ str_int (((start_local - now) div 1000000 + 59) div 60 div 60) @ ''h '' @
               str_int (((start_local - now) div 1000000 + 59) div 60 mod 60) @ ''m'')"
      using p by (simp add: format_time_until_def t Let_def)
  qed
qed

text \<open>The start now, in 125 seconds, in one second, in two hours, and in two hours and five minutes.\<close>

theorem format_time_until_truncates_witness:
  "(5::int) - 5 < 1000000 \<and> format_time_until 5 5 = ''started'' \<and>
   (1000000::int) \<le> 125000000 - 0 \<and> (125000000::int) - 0 < 17179869184000000 \<and>
   format_time_until 0 125000000 = ''in 3m'' \<and>
   format_time_until 0 1000000 = ''in 1m'' \<and>
   format_time_until 0 7200000000 = ''in 2h'' \<and>
   format_time_until 0 7500000000 = ''in 2h 5m''"
  using format_time_until_truncates [of 5 5] format_time_until_truncates [of 125000000 0]
    format_time_until_truncates [of 1000000 0] format_time_until_truncates [of 7200000000 0]
    format_time_until_truncates [of 7500000000 0]
  by (simp add: Let_def str_int_def digits_of.simps)

text \<open>Half a second before the start the code says "started"; 120.3 seconds before it says
  "in 2m"; and 17179869240.999999 seconds before, the float is 17179869241 and the text
  has 55 minutes where the whole seconds give 54.\<close>

theorem format_time_until_subsecond:
  "(0::int) < 500000 \<and> format_time_until 0 500000 = ''started'' \<and>
   timeUntilStart_spec 0 500000 = ''in 1m'' \<and>
   format_time_until 0 120300000 = ''in 2m'' \<and>
   timeUntilStart_spec 0 120300000 = ''in 3m'' \<and>
   total_seconds_int 17179869240999999 = 17179869241 \<and>
   format_time_until 0 17179869240999999 = ''in 4772185h 55m''"
proof -
  have a: "total_seconds_int 500000 = 0" by code_simp
  have b: "total_seconds_int 120300000 = 120" by code_simp
  have c: "total_seconds_int 17179869240999999 = 17179869241" by code_simp
  show ?thesis
    by (simp add: format_time_until_def timeUntilStart_spec_def a b c
          Let_def str_int_def digits_of.simps)
qed

text \<open>
  C7, as the code has it. For an event whose status object carries a type object,
  \<^verbatim>\<open>is_halftime\<close> returns true exactly when the type's name is "STATUS_HALFTIME" or its
  detail is "Halftime". When the status has no type, or the type is not an object, the
  call raises instead of returning false.
\<close>

theorem is_halftime_iff:
  assumes st: "subscript_key event ''status'' = Inr status"
  shows "(\<forall>kvs. subscript_key status ''type'' = Inr (JObj kvs) \<longrightarrow>
            is_halftime event =
              Inr (map_of kvs ''name'' = Some (JStr ''STATUS_HALFTIME'')
                   \<or> map_of kvs ''detail'' = Some (JStr ''Halftime''))) \<and>
         (\<forall>e. subscript_key status ''type'' = Inl e \<longrightarrow> is_halftime event = Inl e) \<and>
         (\<forall>t. subscript_key status ''type'' = Inr t \<longrightarrow> (\<forall>kvs. t \<noteq> JObj kvs) \<longrightarrow>
            is_halftime event = Inl AttributeError)"
proof (intro conjI allI impI)
  fix kvs assume "subscript_key status ''type'' = Inr (JObj kvs)"
  with st show "is_halftime event =
              Inr (map_of kvs ''name'' = Some (JStr ''STATUS_HALFTIME'')
                   \<or> map_of kvs ''detail'' = Some (JStr ''Halftime''))"
    by (auto simp: is_halftime_def rbind_def split: option.splits)
next
  fix e assume "subscript_key status ''type'' = Inl e"
  with st show "is_halftime event = Inl e" by (simp add: is_halftime_def rbind_def)
next
  fix t assume t: "subscript_key status ''type'' = Inr t" and n: "\<forall>kvs. t \<noteq> JObj kvs"
  from n have "dict_get t ''name'' JNull = Inl AttributeError" by (cases t) simp_all
  with st t show "is_halftime event = Inl AttributeError"
    by (simp add: is_halftime_def rbind_def)
qed

text \<open>An event with both signals, one with the detail only, and one with neither.\<close>

theorem is_halftime_iff_witness:
  "subscript_key game_401 ''status''
     = Inr (JObj [(''type'',
              JObj [(''name'', JStr ''STATUS_HALFTIME''), (''detail'', JStr ''Halftime'')])]) \<and>
   is_halftime game_401 = Inr True \<and>
   is_halftime (JObj [(''status'', JObj [(''type'', JObj [(''detail'', JStr ''Halftime'')])])])
     = Inr True \<and>
   is_halftime (JObj [(''status'', JObj [(''type'', JObj [(''name'', JStr ''STATUS_FINAL'')])])])
     = Inr False"
proof -
  have 1: "subscript_key game_401 ''status''
     = Inr (JObj [(''type'',
              JObj [(''name'', JStr ''STATUS_HALFTIME''), (''detail'', JStr ''Halftime'')])])"
    by (simp add: game_401_def)
  have 2: "subscript_key
       (JObj [(''status'', JObj [(''type'', JObj [(''detail'', JStr ''Halftime'')])])]) ''status''
     = Inr (JObj [(''type'', JObj [(''detail'', JStr ''Halftime'')])])"
    by simp
  have 3: "subscript_key
       (JObj [(''status'', JObj [(''type'', JObj [(''name'', JStr ''STATUS_FINAL'')])])]) ''status''
     = Inr (JObj [(''type'', JObj [(''name'', JStr ''STATUS_FINAL'')])])"
    by simp
  from is_halftime_iff [OF 1] is_halftime_iff [OF 2] is_halftime_iff [OF 3] 1
  show ?thesis by simp
qed

text \<open>A status object with no type, and one whose type is null: the call raises.\<close>

theorem is_halftime_without_type_raises:
  "subscript_key (JObj [(''id'', JStr ''401''), (''status'', JObj [])]) ''status'' = Inr (JObj []) \<and>
   is_halftime (JObj [(''id'', JStr ''401''), (''status'', JObj [])]) = Inl KeyError \<and>
   is_halftime (JObj [(''id'', JStr ''401''), (''status'', JObj [(''type'', JNull)])])
     = Inl AttributeError"
  by code_simp

text \<open>
  C8, on the script as it is: whatever the environment variable holds, also a well-formed
  webhook URL, \<^verbatim>\<open>main\<close> ends with a NameError at its first line, before anything is sent,
  because the module binds \<open>WEBHOOK\<close> and reads \<open>DISCORD_WEBHOOK\<close>.
\<close>

theorem main_script_globals_NameError:
  "main n (script_globals v) w s = (Some (NameError ''DISCORD_WEBHOOK''), s)"
  by (simp add: main_def startup_def script_globals_def)

text \<open>
  C9, as the code has it. The startup announcement, when one is posted, is the first POST
  of the run and its text ends with a mention of \<^verbatim>\<open>PING_USER_ID\<close>; a halftime alert,
  when one is posted, starts with that mention on a line of its own, followed by the
  HALFTIME line and the live line.
\<close>

theorem message_texts_with_mention:
  "(startup g w s = (r, s') \<longrightarrow>
      trace s' = trace s \<or>
      (\<exists>p url rest. PING_USER_ID g = Some p \<and> DISCORD_WEBHOOK g = Some (JStr url) \<and>
         trace s' = trace s @
           Post StartupMsg url
             ([CHR 0xE2, CHR 0x9C, CHR 0x85] @ '' Halftime bot started. <@''
              @ py_str (repr_of w) p @ ''>'')
             (post_at w (clock s)) # rest)) \<and>
   (halftime_alert g w event s = (r', s'') \<longrightarrow>
      trace s'' = trace s \<or>
      (\<exists>p url k line. PING_USER_ID g = Some p \<and> DISCORD_WEBHOOK g = Some (JStr url) \<and>
         format_live_line (repr_of w) event = Inr line \<and>
         trace s'' = trace s @
           [Post (HalftimeMsg k) url
              (''<@'' @ py_str (repr_of w) p @ ''>\<newline>''
               @ [CHR 0xF0, CHR 0x9F, CHR 0x8F, CHR 0x80] @ '' **HALFTIME**\<newline>'' @ line)
              (post_at w (clock s))]))"
proof (intro conjI impI)
  assume run: "startup g w s = (r, s')"
  show "trace s' = trace s \<or>
      (\<exists>p url rest. PING_USER_ID g = Some p \<and> DISCORD_WEBHOOK g = Some (JStr url) \<and>
         trace s' = trace s @
           Post StartupMsg url
             ([CHR 0xE2, CHR 0x9C, CHR 0x85] @ '' Halftime bot started. <@''
              @ py_str (repr_of w) p @ ''>'')
             (post_at w (clock s)) # rest)"
  proof (cases "\<exists>url p. DISCORD_WEBHOOK g = Some (JStr url) \<and> startswith url webhook_prefix
                  \<and> PING_USER_ID g = Some p")
    case False
    with run have "s' = s"
      by (auto simp: startup_def split: option.splits json.splits if_splits)
    then show ?thesis by simp
  next
    case True
    then obtain url p where u: "DISCORD_WEBHOOK g = Some (JStr url)"
      and pre: "startswith url webhook_prefix" and p: "PING_USER_ID g = Some p" by blast
    let ?m = "startup_text (py_str (repr_of w) p)"
    from run u pre p
    have run': "sbind (send_discord g w StartupMsg ?m) (\<lambda>_. check_games g w) s = (r, s')"
      by (simp add: startup_def)
    have "\<exists>rest. trace s' = trace s @ Post StartupMsg url ?m (post_at w (clock s)) # rest"
      using sbind_cases [OF run']
    proof (elim disjE exE conjE)
      fix e assume a: "send_discord g w StartupMsg ?m s = (Inl e, s')"
      from send_discord_trace [OF a] u a show ?thesis
        by (auto simp: send_discord_def Let_def split: http_outcome.splits)
    next
      fix x s1
      assume a: "send_discord g w StartupMsg ?m s = (Inr x, s1)"
        and b: "check_games g w s1 = (r, s')"
      from send_discord_returns [OF a] u
      have t1: "trace s1 = trace s @ [Post StartupMsg url ?m (post_at w (clock s))]" by simp
      from check_games_accounted [OF b] obtain ev where "trace s' = trace s1 @ ev"
        unfolding accounted_def by blast
      with t1 show ?thesis by simp
    qed
    with u p show ?thesis by (auto simp: startup_text_def)
  qed
next
  assume run: "halftime_alert g w event s = (r', s'')"
  have send: "trace s2 = trace s \<or>
         (\<exists>url. DISCORD_WEBHOOK g = Some (JStr url) \<and>
            trace s2 = trace s @ [Post (HalftimeMsg k) url m (post_at w (clock s))])"
    if "sbind (send_discord g w (HalftimeMsg k) m) (\<lambda>_. mark_alerted k) s = (r', s2)"
    for k m s2
    using sbind_cases [OF that]
  proof (elim disjE exE conjE)
    fix e assume "send_discord g w (HalftimeMsg k) m s = (Inl e, s2)"
    from send_discord_trace [OF this] show ?thesis .
  next
    fix x s1
    assume a: "send_discord g w (HalftimeMsg k) m s = (Inr x, s1)"
      and b: "mark_alerted k s1 = (r', s2)"
    from b have "trace s2 = trace s1" by (auto simp: mark_alerted_def)
    with send_discord_trace [OF a] show ?thesis by simp
  qed
  from run show "trace s'' = trace s \<or>
      (\<exists>p url k line. PING_USER_ID g = Some p \<and> DISCORD_WEBHOOK g = Some (JStr url) \<and>
         format_live_line (repr_of w) event = Inr line \<and>
         trace s'' = trace s @
           [Post (HalftimeMsg k) url
              (''<@'' @ py_str (repr_of w) p @ ''>\<newline>''
               @ [CHR 0xF0, CHR 0x9F, CHR 0x8F, CHR 0x80] @ '' **HALFTIME**\<newline>'' @ line)
              (post_at w (clock s))])"
    by (auto simp: halftime_alert_def halftime_text_def basketball_def
             split: sum.splits if_splits bool.splits option.splits
             dest!: send)
qed

text \<open>The announcement and the alert for one game, with both names bound.\<close>

theorem message_texts_with_mention_witness:
  "startup bound_globals steady_world (state0 5)
     = (Inr (), snd (startup bound_globals steady_world (state0 5))) \<and>
   (trace (snd (startup bound_globals steady_world (state0 5))) = trace (state0 5) \<or>
    (\<exists>p url rest. PING_USER_ID bound_globals = Some p \<and>
       DISCORD_WEBHOOK bound_globals = Some (JStr url) \<and>
       trace (snd (startup bound_globals steady_world (state0 5))) = trace (state0 5) @
           Post StartupMsg url
             ([CHR 0xE2, CHR 0x9C, CHR 0x85] @ '' Halftime bot started. <@''
              @ py_str (repr_of steady_world) p @ ''>'')
             (post_at steady_world (clock (state0 5))) # rest)) \<and>
   halftime_alert bound_globals steady_world game_401 (state0 5)
     = (Inr (), snd (halftime_alert bound_globals steady_world game_401 (state0 5))) \<and>
   texts_of (HalftimeMsg (JStr ''401''))
     (trace (snd (halftime_alert bound_globals steady_world game_401 (state0 5))))
     = [''<@428747562686611457>\<newline>'' @ [CHR 0xF0, CHR 0x9F, CHR 0x8F, CHR 0x80]
        @ '' **HALFTIME**\<newline>Knicks 51 '' @ [CHR 0xE2, CHR 0x80, CHR 0x93]
        @ '' Celtics 55 (Halftime)'']"
proof -
  let ?a = "startup bound_globals steady_world (state0 5)"
  let ?h = "halftime_alert bound_globals steady_world game_401 (state0 5)"
  have "fst ?a = Inr ()" by code_simp
  then have a: "?a = (Inr (), snd ?a)" by (metis prod.collapse)
  have "fst ?h = Inr ()" by code_simp
  then have h: "?h = (Inr (), snd ?h)" by (metis prod.collapse)
  have t: "texts_of (HalftimeMsg (JStr ''401'')) (trace (snd ?h))
     = [''<@428747562686611457>\<newline>'' @ [CHR 0xF0, CHR 0x9F, CHR 0x8F, CHR 0x80]
        @ '' **HALFTIME**\<newline>Knicks 51 '' @ [CHR 0xE2, CHR 0x80, CHR 0x93]
        @ '' Celtics 55 (Halftime)'']"
    by code_simp
  from message_texts_with_mention [of bound_globals steady_world "state0 5" "Inr ()" "snd ?a" game_401 "Inr ()" "snd ?h"]
       a h t
  show ?thesis by blast
qed

text \<open>With both names bound, the texts posted differ from the spec's.\<close>

theorem startup_text_has_mention:
  "texts_of StartupMsg (trace (snd (main 0 bound_globals steady_world (state0 5))))
     = [[CHR 0xE2, CHR 0x9C, CHR 0x85] @ '' Halftime bot started. <@428747562686611457>''] \<and>
   texts_of StartupMsg (trace (snd (main 0 bound_globals steady_world (state0 5))))
     \<noteq> [startup_text_spec] \<and>
   format_live_line (repr_of steady_world) game_401
     = Inr (''Knicks 51 '' @ [CHR 0xE2, CHR 0x80, CHR 0x93] @ '' Celtics 55 (Halftime)'') \<and>
   texts_of (HalftimeMsg (JStr ''401'')) (trace (snd (main 0 bound_globals steady_world (state0 5))))
     = [''<@428747562686611457>\<newline>'' @ [CHR 0xF0, CHR 0x9F, CHR 0x8F, CHR 0x80]
        @ '' **HALFTIME**\<newline>Knicks 51 '' @ [CHR 0xE2, CHR 0x80, CHR 0x93]
        @ '' Celtics 55 (Halftime)''] \<and>
   texts_of (HalftimeMsg (JStr ''401'')) (trace (snd (main 0 bound_globals steady_world (state0 5))))
     \<noteq> [halftime_text_spec
          (''Knicks 51 '' @ [CHR 0xE2, CHR 0x80, CHR 0x93] @ '' Celtics 55 (Halftime)'')]"
  by code_simp

text \<open>
  C10. An exception raised by the announcement or by the first check cycle ends \<^verbatim>\<open>main\<close>
  before any pass of the loop; once the loop is entered the process never ends that way:
  the same exception raised in a pass is printed and the loop goes on.
\<close>

theorem startup_unprotected:
  "(startup g w s = (Inl e, s') \<longrightarrow>
      main n g w s = (Some e, s') \<and> sleep_count s' = sleep_count s) \<and>
   (startup g w s = (Inr u, s') \<longrightarrow>
      main n g w s = (None, poll_loop n g w s') \<and>
      sleep_count (poll_loop n g w s') = sleep_count s + n) \<and>
   (loop_body g w s = (Inl e, s') \<longrightarrow>
      poll_loop (Suc n) g w s
        = poll_loop n g w (s'\<lparr>trace := trace s' @ [Print e, Sleep POLL_SECONDS]\<rparr>))"
proof (intro conjI impI)
  assume a: "startup g w s = (Inl e, s')"
  then show "main n g w s = (Some e, s')" by (simp add: main_def)
  from startup_accounted [OF a] show "sleep_count s' = sleep_count s"
    by (simp add: accounted_def)
next
  assume a: "startup g w s = (Inr u, s')"
  then show "main n g w s = (None, poll_loop n g w s')" by (simp add: main_def)
  from startup_accounted [OF a] show "sleep_count (poll_loop n g w s') = sleep_count s + n"
    by (simp add: accounted_def poll_loop_sleeps)
next
  assume "loop_body g w s = (Inl e, s')"
  then show "poll_loop (Suc n) g w s
        = poll_loop n g w (s'\<lparr>trace := trace s' @ [Print e, Sleep POLL_SECONDS]\<rparr>)"
    by (simp add: loop_iteration_trace)
qed

text \<open>A fetch without a response: at startup it ends the process, in a pass it does not.\<close>

theorem startup_unprotected_witness:
  "startup bound_globals offline_world (state0 5)
     = (Inl RequestException, snd (startup bound_globals offline_world (state0 5))) \<and>
   main 3 bound_globals offline_world (state0 5)
     = (Some RequestException, snd (startup bound_globals offline_world (state0 5))) \<and>
   sleep_count (snd (main 3 bound_globals offline_world (state0 5))) = 0 \<and>
   loop_body bound_globals offline_world (state0 5)
     = (Inl RequestException, snd (loop_body bound_globals offline_world (state0 5))) \<and>
   poll_loop (Suc 2) bound_globals offline_world (state0 5)
     = poll_loop 2 bound_globals offline_world
         ((snd (loop_body bound_globals offline_world (state0 5)))
            \<lparr>trace := trace (snd (loop_body bound_globals offline_world (state0 5)))
                      @ [Print RequestException, Sleep POLL_SECONDS]\<rparr>) \<and>
   startup bound_globals steady_world (state0 5)
     = (Inr (), snd (startup bound_globals steady_world (state0 5))) \<and>
   fst (main 3 bound_globals steady_world (state0 5)) = None \<and>
   sleep_count (snd (main 3 bound_globals steady_world (state0 5))) = 3"
proof -
  let ?a = "startup bound_globals offline_world (state0 5)"
  let ?b = "loop_body bound_globals offline_world (state0 5)"
  let ?c = "startup bound_globals steady_world (state0 5)"
  have "fst ?a = Inl RequestException" by code_simp
  then have a: "?a = (Inl RequestException, snd ?a)" by (metis prod.collapse)
  have "fst ?b = Inl RequestException" by code_simp
  then have b: "?b = (Inl RequestException, snd ?b)" by (metis prod.collapse)
  have "fst ?c = Inr ()" by code_simp
  then have c: "?c = (Inr (), snd ?c)" by (metis prod.collapse)
  have z: "sleep_count (state0 5) = 0" by (simp add: state0_def sleep_count_def)
  from startup_unprotected [of bound_globals offline_world "state0 5" RequestException "snd ?a" 3 "()"] a z
  have 1: "main 3 bound_globals offline_world (state0 5) = (Some RequestException, snd ?a)"
    and 2: "sleep_count (snd ?a) = 0"
    by simp_all
  from startup_unprotected [of bound_globals offline_world "state0 5" RequestException "snd ?b" 2 "()"] b
  have 3: "poll_loop (Suc 2) bound_globals offline_world (state0 5)
     = poll_loop 2 bound_globals offline_world
         ((snd ?b)\<lparr>trace := trace (snd ?b) @ [Print RequestException, Sleep POLL_SECONDS]\<rparr>)"
    by blast
  from startup_unprotected [of bound_globals steady_world "state0 5" RequestException "snd ?c" 3 "()"] c z
  have 4: "main 3 bound_globals steady_world (state0 5)
             = (None, poll_loop 3 bound_globals steady_world (snd ?c))"
    and 5: "sleep_count (poll_loop 3 bound_globals steady_world (snd ?c)) = 3"
    by simp_all
  from a 1 2 b 3 c 4 5 show ?thesis by simp
qed

end
